theory Spec2Isabelle
  imports Main "HOL-Library.Word"
begin

section \<open>The upload daemon \<open>autoupload.py\<close>\<close>

text \<open>
  A shallow embedding of \<^verbatim>\<open>src/autoupload.py\<close>. The fields of
  \<^verbatim>\<open>AutoUploadModule\<close> that are assigned once in \<^verbatim>\<open>__init__\<close> and never
  again form the record \<open>config\<close>; everything that changes while the daemon runs (the
  queue, the list \<^verbatim>\<open>self.files\<close>, the local file system, the tasks of the progress
  display) forms the record \<open>state\<close>, which also carries a chronological log of the
  externally visible effects. Python exceptions are values of the type \<open>exn\<close>; a
  statement that may raise returns \<open>(exn + 'a) \<times> state\<close>, the state being the one
  reached when the exception was raised. The calls of \<^verbatim>\<open>debug\<close> only print when
  \<^verbatim>\<open>DEBUG_MODE\<close> is set and are left out.
\<close>

subsection \<open>Data\<close>

type_synonym path = string
type_synonym bytes = "8 word list"
type_synonym task_id = nat

datatype exn =
    FtpError              \<comment> \<open>\<^verbatim>\<open>ftplib.Error\<close> and its subclasses\<close>
  | OSError               \<comment> \<open>any other \<^verbatim>\<open>OSError\<close>, e.g. a refused connection\<close>
  | FileNotFoundError
  | PermissionError
  | ValueError
  | KeyError
  | Full                  \<comment> \<open>\<^verbatim>\<open>queue.Full\<close>\<close>
  | Empty                 \<comment> \<open>\<^verbatim>\<open>queue.Empty\<close>\<close>

datatype event =
    Print string                      \<comment> \<open>a line on standard output\<close>
  | PrintErr string                   \<comment> \<open>a line on standard error\<close>
  | Sleep nat                         \<comment> \<open>\<^verbatim>\<open>time.sleep\<close>, in seconds\<close>
  | FtpConnect string int string string  \<comment> \<open>host, port, user, password\<close>
  | FtpCwd string
  | FtpStor string                    \<comment> \<open>the \<^verbatim>\<open>STOR\<close> command with the remote name\<close>
  | FtpSend nat                       \<comment> \<open>one block of that many bytes sent\<close>
  | FtpQuit
  | FileOpen path
  | FsRename path path
  | FsRemove path
  | AddTask task_id string nat
  | StartTask task_id
  | Advance task_id nat
  | RemoveTask task_id

record task =
  description :: string
  total :: nat
  completed :: nat
  started :: bool

datatype thread = WorkerThread nat | ScannerThread

text \<open>The namespace returned by \<^verbatim>\<open>parser.parse_args()\<close> (lines 223 to 236).\<close>

record args =
  source :: string
  ftp_server :: string
  threads :: int
  ftp_user :: string
  ftp_password :: string
  ftp_port :: int
  ftp_dir :: string
  move :: string
  remove :: bool
  debug :: bool

record config =
  source_dir :: path
  server :: string
  user :: string
  passwd :: string
  rm :: bool
  mv :: string
  remote_dir :: string
  num_threads :: int

record state =
  queue :: "path list"
  files :: "path list"
  workers :: "thread list"
  run :: bool
  fs :: "path \<rightharpoonup> bytes"
  tasks :: "task_id \<rightharpoonup> task"
  task_index :: nat
  log :: "event list"

text \<open>\<^verbatim>\<open>queue.Queue(maxsize=15)\<close>, line 42.\<close>

definition maxsize :: nat where
  "maxsize = 15"

text \<open>The port \<^verbatim>\<open>ftplib.FTP\<close> connects to when its caller names none.\<close>

definition FTP_PORT :: int where
  "FTP_PORT = 21"

subsection \<open>Construction and start-up\<close>

text \<open>
  \<^verbatim>\<open>AutoUploadModule.__init__\<close> (lines 34 to 48), applied to the file system and the
  progress display that exist when it is called. \<^verbatim>\<open>range(num_threads)\<close> is empty for
  a negative number.
\<close>

definition AutoUploadModule_init ::
  "path \<Rightarrow> string \<Rightarrow> int \<Rightarrow> string \<Rightarrow> string \<Rightarrow> string \<Rightarrow> bool \<Rightarrow> string
     \<Rightarrow> (path \<rightharpoonup> bytes) \<Rightarrow> config \<times> state" where
  "AutoUploadModule_init source_dir0 server0 num_threads0 user0 password0 remote_dir0 remove0 move_to0 fs0 =
     (\<lparr>source_dir = source_dir0, server = server0, user = user0, passwd = password0,
       rm = remove0, mv = move_to0, remote_dir = remote_dir0, num_threads = num_threads0\<rparr>,
      \<lparr>queue = [], files = [],
       workers = map WorkerThread [0 ..< nat num_threads0],
       run = False, fs = fs0, tasks = Map.empty, task_index = 0, log = []\<rparr>)"

text \<open>\<^verbatim>\<open>start\<close> (lines 50 to 59): the scanner thread joins the list and all are started.\<close>

definition start :: "state \<Rightarrow> state" where
  "start s = s\<lparr>run := True, workers := workers s @ [ScannerThread]\<rparr>"

definition isabs :: "path \<Rightarrow> bool" where
  "isabs p = (case p of [] \<Rightarrow> False | c # _ \<Rightarrow> c = CHR ''/'')"

text \<open>
  The main program (lines 222 to 280) up to the point where the daemon runs: either
  \<^verbatim>\<open>sys.exit\<close> with a code, or the started uploader. \<open>isdir\<close> and \<open>abspath\<close> are
  the answers of the operating system.
\<close>

definition main ::
  "(path \<Rightarrow> bool) \<Rightarrow> (path \<Rightarrow> path) \<Rightarrow> (path \<rightharpoonup> bytes) \<Rightarrow> args \<Rightarrow> int + (config \<times> state)" where
  "main isdir abspath fs0 a =
     (let source_directory = (if \<not> isabs (source a) then abspath (source a) else source a) in
      if \<not> isdir source_directory then Inl 1
      else if move a \<noteq> [] \<and> remove a then Inl 3
      else
        let move_dir = (if move a \<noteq> [] \<and> \<not> isabs (move a) then abspath (move a) else move a) in
        if move a \<noteq> [] \<and> \<not> isdir move_dir then Inl 2
        else
          (case AutoUploadModule_init source_directory (ftp_server a) 3 (ftp_user a)
                  (ftp_password a) (ftp_dir a) (remove a) move_dir fs0 of
             (c, s) \<Rightarrow> Inr (c, start s)))"

text \<open>The upload workers among the threads of a started uploader.\<close>

definition upload_workers :: "state \<Rightarrow> thread list" where
  "upload_workers s = filter (\<lambda>t. t \<noteq> ScannerThread) (workers s)"

subsection \<open>The operating system, the queue and the progress display\<close>

definition emit :: "event \<Rightarrow> state \<Rightarrow> state" where
  "emit e s = s\<lparr>log := log s @ [e]\<rparr>"

text \<open>
  \<^verbatim>\<open>os.path.basename\<close> and \<^verbatim>\<open>os.path.join\<close> (POSIX), \<^verbatim>\<open>os.path.isfile\<close> and
  \<^verbatim>\<open>os.path.getsize\<close>. The file system maps the path of each regular file to its
  content.
\<close>

definition basename :: "path \<Rightarrow> string" where
  "basename p = rev (takeWhile (\<lambda>c. c \<noteq> CHR ''/'') (rev p))"

definition join :: "path \<Rightarrow> path \<Rightarrow> path" where
  "join a b =
     (if isabs b then b
      else if a = [] \<or> last a = CHR ''/'' then a @ b
      else a @ ''/'' @ b)"

definition isfile :: "state \<Rightarrow> path \<Rightarrow> bool" where
  "isfile s p = (fs s p \<noteq> None)"

definition getsize :: "state \<Rightarrow> path \<Rightarrow> exn + nat" where
  "getsize s p = (case fs s p of None \<Rightarrow> Inl FileNotFoundError | Some b \<Rightarrow> Inr (length b))"

text \<open>
  What the outside world answers during the processing of one file: \<open>None\<close> is
  success, \<open>Some e\<close> raises \<open>e\<close>. A transfer either runs to its end or raises after
  at most \<open>k\<close> blocks.
\<close>

datatype stor_outcome = StorOk | StorRaises nat exn

record env =
  connect_res :: "exn option"
  cwd_res :: "exn option"
  open_res :: "exn option"
  stor_res :: stor_outcome
  quit_res :: "exn option"
  rename_res :: "exn option"
  remove_res :: "exn option"
  getsize_res :: "exn option"

text \<open>
  The call of \<^verbatim>\<open>os.path.getsize\<close> at line 152. It comes after the test of line 148
  and outside every \<^verbatim>\<open>try\<close> of \<^verbatim>\<open>_process_file\<close>: when another process has
  deleted the file in between, or the file cannot be read, it raises.
\<close>

definition stat_size :: "env \<Rightarrow> state \<Rightarrow> path \<Rightarrow> exn + nat" where
  "stat_size ev s p = (case getsize_res ev of Some e \<Rightarrow> Inl e | None \<Rightarrow> getsize s p)"

text \<open>\<^verbatim>\<open>os.rename\<close> and \<^verbatim>\<open>os.remove\<close>.\<close>

definition os_rename :: "env \<Rightarrow> path \<Rightarrow> path \<Rightarrow> state \<Rightarrow> (exn + unit) \<times> state" where
  "os_rename ev src dst s =
     (case fs s src of
        None \<Rightarrow> (Inl FileNotFoundError, s)
      | Some b \<Rightarrow>
          (case rename_res ev of
             Some e \<Rightarrow> (Inl e, s)
           | None \<Rightarrow>
               (Inr (), emit (FsRename src dst)
                  (s\<lparr>fs := (if src = dst then fs s else ((fs s)(dst \<mapsto> b))(src := None))\<rparr>))))"

definition os_remove :: "env \<Rightarrow> path \<Rightarrow> state \<Rightarrow> (exn + unit) \<times> state" where
  "os_remove ev p s =
     (case fs s p of
        None \<Rightarrow> (Inl FileNotFoundError, s)
      | Some b \<Rightarrow>
          (case remove_res ev of
             Some e \<Rightarrow> (Inl e, s)
           | None \<Rightarrow> (Inr (), emit (FsRemove p) (s\<lparr>fs := (fs s)(p := None)\<rparr>))))"

text \<open>
  \<^verbatim>\<open>queue.Queue\<close>: \<^verbatim>\<open>put(x, block=False)\<close> raises \<^verbatim>\<open>Full\<close> when the queue
  holds \<open>maxsize\<close> items, \<^verbatim>\<open>get(False)\<close> raises \<^verbatim>\<open>Empty\<close> on an empty queue. The
  counter behind \<^verbatim>\<open>task_done\<close> is not modelled: nothing ever waits on it.
  \<^verbatim>\<open>list.remove\<close> deletes the first occurrence and raises \<^verbatim>\<open>ValueError\<close> when there
  is none.
\<close>

definition queue_put :: "path \<Rightarrow> path list \<Rightarrow> exn + path list" where
  "queue_put x q = (if maxsize \<le> length q then Inl Full else Inr (q @ [x]))"

definition queue_get :: "path list \<Rightarrow> exn + (path \<times> path list)" where
  "queue_get q = (case q of [] \<Rightarrow> Inl Empty | x # q' \<Rightarrow> Inr (x, q'))"

definition list_remove :: "path \<Rightarrow> path list \<Rightarrow> exn + path list" where
  "list_remove x xs = (if x \<in> set xs then Inr (remove1 x xs) else Inl ValueError)"

text \<open>
  \<^verbatim>\<open>rich.progress.Progress\<close>: \<^verbatim>\<open>add_task\<close> hands out the next index,
  \<^verbatim>\<open>start_task\<close>, \<^verbatim>\<open>update(advance=n)\<close> and \<^verbatim>\<open>remove_task\<close> raise
  \<^verbatim>\<open>KeyError\<close> on an unknown task. \<^verbatim>\<open>update\<close> adds to \<^verbatim>\<open>completed\<close> without
  clamping it to \<^verbatim>\<open>total\<close>.
\<close>

definition add_task :: "string \<Rightarrow> nat \<Rightarrow> state \<Rightarrow> task_id \<times> state" where
  "add_task d tot s =
     (task_index s,
      emit (AddTask (task_index s) d tot)
        (s\<lparr>tasks := (tasks s)(task_index s \<mapsto>
                \<lparr>description = d, total = tot, completed = 0, started = False\<rparr>),
           task_index := task_index s + 1\<rparr>))"

definition start_task :: "task_id \<Rightarrow> state \<Rightarrow> (exn + unit) \<times> state" where
  "start_task tid s =
     (case tasks s tid of
        None \<Rightarrow> (Inl KeyError, s)
      | Some t \<Rightarrow> (Inr (), emit (StartTask tid) (s\<lparr>tasks := (tasks s)(tid \<mapsto> t\<lparr>started := True\<rparr>)\<rparr>)))"

definition update_advance :: "task_id \<Rightarrow> nat \<Rightarrow> state \<Rightarrow> (exn + unit) \<times> state" where
  "update_advance tid n s =
     (case tasks s tid of
        None \<Rightarrow> (Inl KeyError, s)
      | Some t \<Rightarrow>
          (Inr (), emit (Advance tid n)
             (s\<lparr>tasks := (tasks s)(tid \<mapsto> t\<lparr>completed := completed t + n\<rparr>)\<rparr>)))"

definition remove_task :: "task_id \<Rightarrow> state \<Rightarrow> (exn + unit) \<times> state" where
  "remove_task tid s =
     (case tasks s tid of
        None \<Rightarrow> (Inl KeyError, s)
      | Some t \<Rightarrow> (Inr (), emit (RemoveTask tid) (s\<lparr>tasks := (tasks s)(tid := None)\<rparr>)))"

subsection \<open>The transfer client\<close>

text \<open>
  \<^verbatim>\<open>ftplib.FTP(host=..., user=..., passwd=...)\<close> connects to the host on
  \<open>FTP_PORT\<close> and logs in; \<^verbatim>\<open>cwd\<close> and \<^verbatim>\<open>quit\<close> send one command each.
\<close>

definition ftp_connect :: "config \<Rightarrow> env \<Rightarrow> state \<Rightarrow> (exn + unit) \<times> state" where
  "ftp_connect c ev s =
     (let s1 = emit (FtpConnect (server c) FTP_PORT (user c) (passwd c)) s in
      case connect_res ev of None \<Rightarrow> (Inr (), s1) | Some e \<Rightarrow> (Inl e, s1))"

definition ftp_cwd :: "string \<Rightarrow> env \<Rightarrow> state \<Rightarrow> (exn + unit) \<times> state" where
  "ftp_cwd d ev s =
     (let s1 = emit (FtpCwd d) s in
      case cwd_res ev of None \<Rightarrow> (Inr (), s1) | Some e \<Rightarrow> (Inl e, s1))"

definition ftp_quit :: "env \<Rightarrow> state \<Rightarrow> (exn + unit) \<times> state" where
  "ftp_quit ev s =
     (let s1 = emit FtpQuit s in
      case quit_res ev of None \<Rightarrow> (Inr (), s1) | Some e \<Rightarrow> (Inl e, s1))"

text \<open>\<^verbatim>\<open>open(file_path, "rb")\<close>.\<close>

definition py_open :: "env \<Rightarrow> path \<Rightarrow> state \<Rightarrow> (exn + bytes) \<times> state" where
  "py_open ev p s =
     (case fs s p of
        None \<Rightarrow> (Inl FileNotFoundError, s)
      | Some b \<Rightarrow>
          (case open_res ev of
             Some e \<Rightarrow> (Inl e, s)
           | None \<Rightarrow> (Inr b, emit (FileOpen p) s)))"

text \<open>
  The loop of \<^verbatim>\<open>storbinary\<close>: \<^verbatim>\<open>fp.read(blocksize)\<close> until it returns nothing,
  each block sent and then handed to the callback.
\<close>

function read_blocks :: "nat \<Rightarrow> bytes \<Rightarrow> bytes list" where
  "read_blocks n xs = (if n = 0 \<or> xs = [] then [] else take n xs # read_blocks n (drop n xs))"
  by pat_completeness auto
termination
  by (relation "measure (\<lambda>(n, xs). length xs)") auto

declare read_blocks.simps [simp del]

fun send_blocks ::
  "(bytes \<Rightarrow> state \<Rightarrow> (exn + unit) \<times> state) \<Rightarrow> bytes list \<Rightarrow> state \<Rightarrow> (exn + unit) \<times> state" where
  "send_blocks callback [] s = (Inr (), s)"
| "send_blocks callback (b # bs) s =
     (case callback b (emit (FtpSend (length b)) s) of
        (Inl e, s') \<Rightarrow> (Inl e, s')
      | (Inr u, s') \<Rightarrow> send_blocks callback bs s')"

definition storbinary ::
  "env \<Rightarrow> string \<Rightarrow> bytes \<Rightarrow> nat \<Rightarrow> (bytes \<Rightarrow> state \<Rightarrow> (exn + unit) \<times> state) \<Rightarrow> state
     \<Rightarrow> (exn + unit) \<times> state" where
  "storbinary ev remote_name content blocksize callback s =
     (let s1 = emit (FtpStor remote_name) s;
          blocks = read_blocks blocksize content
      in case stor_res ev of
           StorOk \<Rightarrow> send_blocks callback blocks s1
         | StorRaises k e \<Rightarrow>
             (case send_blocks callback (take k blocks) s1 of
                (Inl e', s2) \<Rightarrow> (Inl e', s2)
              | (Inr u, s2) \<Rightarrow> (Inl e, s2)))"

subsection \<open>Uploading one file\<close>

text \<open>
  The text of an exception in a message comes from the server or the operating system;
  the model prints the name of its class.
\<close>

fun str_exn :: "exn \<Rightarrow> string" where
  "str_exn FtpError = ''FtpError''"
| "str_exn OSError = ''OSError''"
| "str_exn FileNotFoundError = ''FileNotFoundError''"
| "str_exn PermissionError = ''PermissionError''"
| "str_exn ValueError = ''ValueError''"
| "str_exn KeyError = ''KeyError''"
| "str_exn Full = ''Full''"
| "str_exn Empty = ''Empty''"

text \<open>\<^verbatim>\<open>FtpUploadTracker.handle\<close> (lines 29 and 30).\<close>

definition handle :: "task_id \<Rightarrow> bytes \<Rightarrow> state \<Rightarrow> (exn + unit) \<times> state" where
  "handle task block s = update_advance task 1024 s"

text \<open>
  The handlers of lines 104 to 107 and of line 102. \<open>Inr False\<close> means that
  \<^verbatim>\<open>_ret\<close> is still \<^verbatim>\<open>False\<close> and control goes on to line 109.
\<close>

definition open_handlers :: "string \<Rightarrow> exn \<Rightarrow> state \<Rightarrow> (exn + bool) \<times> state" where
  "open_handlers remote_name e s =
     (if e = FileNotFoundError then (Inr False, emit (Print (remote_name @ '' - File not found'')) s)
      else if e = PermissionError then (Inr False, emit (Print (remote_name @ '' - File in use'')) s)
      else (Inl e, s))"

definition stor_handlers :: "string \<Rightarrow> exn \<Rightarrow> state \<Rightarrow> (exn + bool) \<times> state" where
  "stor_handlers remote_name e s =
     (if e = FtpError
      then (Inr False, emit (Print (''Error storing file '' @ remote_name @ '': '' @ str_exn e)) s)
      else open_handlers remote_name e s)"

text \<open>Lines 95 to 107 of \<^verbatim>\<open>_upload_file\<close>.\<close>

definition upload_stor ::
  "env \<Rightarrow> path \<Rightarrow> string \<Rightarrow> task_id \<Rightarrow> state \<Rightarrow> (exn + bool) \<times> state" where
  "upload_stor ev file_path remote_name prg_task s =
     (case py_open ev file_path s of
        (Inl e, s1) \<Rightarrow> open_handlers remote_name e s1
      | (Inr f, s1) \<Rightarrow>
          (case start_task prg_task s1 of
             (Inl e, s2) \<Rightarrow> stor_handlers remote_name e s2
           | (Inr u, s2) \<Rightarrow>
               (case storbinary ev remote_name f 1024 (handle prg_task) s2 of
                  (Inl e, s3) \<Rightarrow> stor_handlers remote_name e s3
                | (Inr u', s3) \<Rightarrow> (Inr True, s3))))"

text \<open>
  \<^verbatim>\<open>_upload_file\<close> (lines 68 to 116). \<^verbatim>\<open>self.progress.refresh()\<close> and the
  unconnected \<^verbatim>\<open>ftplib.FTP()\<close> of line 78 change nothing that is modelled. An
  exception other than \<^verbatim>\<open>ftplib.Error\<close> raised by the connection or by
  \<^verbatim>\<open>cwd\<close> leaves the function, as does one raised by \<^verbatim>\<open>quit\<close>.
\<close>

definition upload_file ::
  "config \<Rightarrow> env \<Rightarrow> path \<Rightarrow> string \<Rightarrow> task_id \<Rightarrow> state \<Rightarrow> (exn + bool) \<times> state" where
  "upload_file c ev file_path remote_name prg_task s =
     (case ftp_connect c ev s of
        (Inl e, s1) \<Rightarrow>
          if e = FtpError
          then (Inr False,
                emit (PrintErr (''Error connecting to '' @ server c @ '': '' @ str_exn e)) s1)
          else (Inl e, s1)
      | (Inr u, s1) \<Rightarrow>
          (case ftp_cwd (remote_dir c) ev s1 of
             (Inl e, s2) \<Rightarrow>
               if e = FtpError
               then (case ftp_quit ev (emit (PrintErr (''Error: '' @ str_exn e)) s2) of
                       (Inl e', s3) \<Rightarrow> (Inl e', s3)
                     | (Inr u', s3) \<Rightarrow> (Inr False, s3))
               else (Inl e, s2)
           | (Inr u', s2) \<Rightarrow>
               (case upload_stor ev file_path remote_name prg_task s2 of
                  (Inl e, s3) \<Rightarrow> (Inl e, s3)
                | (Inr ret, s3) \<Rightarrow>
                    (case ftp_quit ev s3 of
                       (Inl e, s4) \<Rightarrow> (Inl e, s4)
                     | (Inr u'', s4) \<Rightarrow> (Inr ret, s4)))))"

text \<open>\<^verbatim>\<open>_move_file\<close> (lines 118 to 123) and \<^verbatim>\<open>_delete_file\<close> (lines 125 to 129).\<close>

definition move_file ::
  "config \<Rightarrow> env \<Rightarrow> path \<Rightarrow> string \<Rightarrow> task_id \<Rightarrow> state \<Rightarrow> (exn + unit) \<times> state" where
  "move_file c ev file_path file_name prg_task s =
     (case os_rename ev file_path (join (mv c) file_name) s of
        (Inl e, s1) \<Rightarrow> (Inl e, s1)
      | (Inr u, s1) \<Rightarrow> remove_task prg_task s1)"

definition delete_file :: "env \<Rightarrow> path \<Rightarrow> task_id \<Rightarrow> state \<Rightarrow> (exn + unit) \<times> state" where
  "delete_file ev file_path prg_task s =
     (case os_remove ev file_path s of
        (Inl e, s1) \<Rightarrow> (Inl e, s1)
      | (Inr u, s1) \<Rightarrow> remove_task prg_task s1)"

text \<open>\<^verbatim>\<open>_append_file\<close> (lines 131 to 142).\<close>

definition append_file :: "path \<Rightarrow> state \<Rightarrow> (exn + unit) \<times> state" where
  "append_file file_path s =
     (if file_path \<notin> set (files s) then
        if isfile s file_path then
          (case queue_put file_path (queue s) of
             Inl e \<Rightarrow> if e = Full then (Inr (), emit (Sleep 5) s) else (Inl e, s)
           | Inr q \<Rightarrow> (Inr (), s\<lparr>queue := q, files := files s @ [file_path]\<rparr>))
        else (Inr (), s)
      else (Inr (), s))"

text \<open>
  \<^verbatim>\<open>_process_file\<close> (lines 144 to 175). The handlers of lines 168 to 171 catch
  every exception; \<open>process_try\<close> is the \<^verbatim>\<open>try\<close> statement, its result \<open>True\<close>
  when line 167 returned and \<open>False\<close> when control reaches line 173.
\<close>

definition process_handlers :: "string \<Rightarrow> exn \<Rightarrow> state \<Rightarrow> state" where
  "process_handlers file_name e s =
     (if e = PermissionError then emit (PrintErr (file_name @ '' cannot be accessed'')) s
      else emit (PrintErr (file_name @ '' - Error: '' @ str_exn e)) s)"

definition process_try ::
  "config \<Rightarrow> env \<Rightarrow> path \<Rightarrow> string \<Rightarrow> task_id \<Rightarrow> state \<Rightarrow> bool \<times> state" where
  "process_try c ev file_path file_name prog_task s =
     (case upload_file c ev file_path file_name prog_task s of
        (Inl e, s1) \<Rightarrow> (False, process_handlers file_name e s1)
      | (Inr ok, s1) \<Rightarrow>
          if ok then
            if mv c \<noteq> [] then
              (case move_file c ev file_path file_name prog_task s1 of
                 (Inl e, s2) \<Rightarrow> (False, process_handlers file_name e s2)
               | (Inr u, s2) \<Rightarrow> (True, emit (Print file_name) s2))
            else if rm c then
              (case delete_file ev file_path prog_task s1 of
                 (Inl e, s2) \<Rightarrow> (False, process_handlers file_name e s2)
               | (Inr u, s2) \<Rightarrow> (True, emit (Print file_name) s2))
            else (True, emit (Print file_name) s1)
          else (False, s1))"

definition process_file :: "config \<Rightarrow> env \<Rightarrow> path \<Rightarrow> state \<Rightarrow> (exn + bool) \<times> state" where
  "process_file c ev file_path s =
     (let file_name = basename file_path in
      if \<not> isfile s file_path
      then (Inr False, emit (PrintErr (file_name @ '' has been removed'')) s)
      else
        (case stat_size ev s file_path of
           Inl e \<Rightarrow> (Inl e, s)
         | Inr file_size \<Rightarrow>
             if file_size = 0
             then (Inr False, emit (PrintErr (file_name @ '' zero file size'')) s)
             else
               (case add_task file_name file_size s of
                  (prog_task, s1) \<Rightarrow>
                    (case process_try c ev file_path file_name prog_task s1 of
                       (returned, s2) \<Rightarrow>
                         if returned then (Inr True, s2)
                         else
                           (case remove_task prog_task s2 of
                              (Inl e, s3) \<Rightarrow> (Inl e, s3)
                            | (Inr u, s3) \<Rightarrow> (Inr False, s3))))))"

subsection \<open>The worker and the scanner\<close>

text \<open>
  One turn of the loop of \<^verbatim>\<open>_worker_thread\<close> (lines 180 to 200). Line 196 catches
  every exception.
\<close>

definition worker_handlers :: "path \<Rightarrow> exn \<Rightarrow> state \<Rightarrow> state" where
  "worker_handlers file_path e s =
     (if e = ValueError then s
      else emit (PrintErr (basename file_path @ '' - Error: '' @ str_exn e)) s)"

definition worker_release :: "config \<Rightarrow> path \<Rightarrow> (exn + bool) \<Rightarrow> state \<Rightarrow> state" where
  "worker_release c file_path r s =
     (case r of
        Inl e \<Rightarrow> worker_handlers file_path e s
      | Inr b \<Rightarrow>
          if rm c \<or> mv c \<noteq> [] then
            (case list_remove file_path (files s) of
               Inl e \<Rightarrow> worker_handlers file_path e s
             | Inr fl \<Rightarrow> s\<lparr>files := fl\<rparr>)
          else s)"

definition worker_iteration :: "config \<Rightarrow> env \<Rightarrow> state \<Rightarrow> (exn + unit) \<times> state" where
  "worker_iteration c ev s =
     (case queue_get (queue s) of
        Inl e \<Rightarrow> if e = Empty then (Inr (), emit (Sleep 1) s) else (Inl e, s)
      | Inr (file_path, q) \<Rightarrow>
          (let s1 = s\<lparr>queue := q\<rparr> in
           if file_path \<noteq> [] then
             (case process_file c ev file_path s1 of
                (r, s2) \<Rightarrow> (Inr (), worker_release c file_path r s2))
           else (Inr (), s1)))"

text \<open>
  One turn of the loop of \<^verbatim>\<open>_scanner_thread\<close> (lines 207 to 218); \<open>listing\<close> is
  what \<^verbatim>\<open>listdir(self.source_dir)\<close> returned.
\<close>

definition scanner_file :: "config \<Rightarrow> string \<Rightarrow> state \<Rightarrow> (exn + unit) \<times> state" where
  "scanner_file c file s =
     (let source_path = join (source_dir c) file in
      if mv c \<noteq> [] \<and> isfile s (join (mv c) file)
      then (Inr (), emit (Print (file @ '' already in '' @ mv c)) s)
      else append_file source_path s)"

fun scanner_loop :: "config \<Rightarrow> string list \<Rightarrow> state \<Rightarrow> (exn + unit) \<times> state" where
  "scanner_loop c [] s = (Inr (), s)"
| "scanner_loop c (f # fl) s =
     (case scanner_file c f s of
        (Inl e, s1) \<Rightarrow> (Inl e, s1)
      | (Inr u, s1) \<Rightarrow> scanner_loop c fl s1)"

definition scanner_iteration :: "config \<Rightarrow> string list \<Rightarrow> state \<Rightarrow> (exn + unit) \<times> state" where
  "scanner_iteration c listing s =
     (let s1 = emit (Sleep 1) s;
          fl = filter (\<lambda>f. isfile s1 (join (source_dir c) f)) listing
      in scanner_loop c fl s1)"

subsection \<open>The threads, statement by statement\<close>

text \<open>
  The scanner and the workers run concurrently on the shared queue and list. The
  statements of \<^verbatim>\<open>_append_file\<close> and of the worker's loop that touch them are the
  atomic steps below; between two of them any other thread may take a step. A thread's
  position is its program counter: the scanner has passed the tests of lines 132 and
  133 (\<open>SChecked\<close>) or the \<^verbatim>\<open>put\<close> of line 136 (\<open>SPushed\<close>); a worker holds the
  path it got at line 183 (\<open>WGot\<close>) and then the outcome of line 190
  (\<open>WProcessed\<close>). \<^verbatim>\<open>_process_file\<close> touches neither the queue nor the list and
  is taken as one step; a file that another process deletes between the test of line
  148 and the call of line 152 is the outcome \<open>getsize_res\<close> of that step.
  \<open>EnvWrite\<close> is another process that creates, rewrites or deletes a file.
\<close>

datatype scanner_pc = SIdle | SChecked path | SPushed path

datatype worker_pc = WIdle | WGot path | WProcessed path "exn + bool"

record sys =
  shared :: state
  spc :: scanner_pc
  wpc :: "nat \<Rightarrow> worker_pc"

datatype action =
    ScanCheck path
  | ScanPut
  | ScanAppend
  | WorkerGet nat
  | WorkerProcess nat env
  | WorkerRelease nat
  | EnvWrite path "bytes option"

fun exec :: "config \<Rightarrow> action \<Rightarrow> sys \<Rightarrow> sys" where
  "exec c (ScanCheck p) \<sigma> =
     (if spc \<sigma> = SIdle \<and> p \<notin> set (files (shared \<sigma>)) \<and> isfile (shared \<sigma>) p
      then \<sigma>\<lparr>spc := SChecked p\<rparr> else \<sigma>)"
| "exec c ScanPut \<sigma> =
     (case spc \<sigma> of
        SChecked p \<Rightarrow>
          (case queue_put p (queue (shared \<sigma>)) of
             Inl e \<Rightarrow>
               \<sigma>\<lparr>shared := (if e = Full then emit (Sleep 5) (shared \<sigma>) else shared \<sigma>),
                 spc := SIdle\<rparr>
           | Inr q \<Rightarrow> \<sigma>\<lparr>shared := (shared \<sigma>)\<lparr>queue := q\<rparr>, spc := SPushed p\<rparr>)
      | _ \<Rightarrow> \<sigma>)"
| "exec c ScanAppend \<sigma> =
     (case spc \<sigma> of
        SPushed p \<Rightarrow> \<sigma>\<lparr>shared := (shared \<sigma>)\<lparr>files := files (shared \<sigma>) @ [p]\<rparr>, spc := SIdle\<rparr>
      | _ \<Rightarrow> \<sigma>)"
| "exec c (WorkerGet w) \<sigma> =
     (if int w < num_threads c \<and> wpc \<sigma> w = WIdle then
        (case queue_get (queue (shared \<sigma>)) of
           Inl e \<Rightarrow> \<sigma>\<lparr>shared := (if e = Empty then emit (Sleep 1) (shared \<sigma>) else shared \<sigma>)\<rparr>
         | Inr (p, q) \<Rightarrow>
             \<sigma>\<lparr>shared := (shared \<sigma>)\<lparr>queue := q\<rparr>,
               wpc := (wpc \<sigma>)(w := if p \<noteq> [] then WGot p else WIdle)\<rparr>)
      else \<sigma>)"
| "exec c (WorkerProcess w ev) \<sigma> =
     (case wpc \<sigma> w of
        WGot p \<Rightarrow>
          (case process_file c ev p (shared \<sigma>) of
             (r, s') \<Rightarrow> \<sigma>\<lparr>shared := s', wpc := (wpc \<sigma>)(w := WProcessed p r)\<rparr>)
      | _ \<Rightarrow> \<sigma>)"
| "exec c (WorkerRelease w) \<sigma> =
     (case wpc \<sigma> w of
        WProcessed p r \<Rightarrow>
          \<sigma>\<lparr>shared := worker_release c p r (shared \<sigma>), wpc := (wpc \<sigma>)(w := WIdle)\<rparr>
      | _ \<Rightarrow> \<sigma>)"
| "exec c (EnvWrite p v) \<sigma> = \<sigma>\<lparr>shared := (shared \<sigma>)\<lparr>fs := (fs (shared \<sigma>))(p := v)\<rparr>\<rparr>"

fun run_actions :: "config \<Rightarrow> action list \<Rightarrow> sys \<Rightarrow> sys" where
  "run_actions c [] \<sigma> = \<sigma>"
| "run_actions c (a # as) \<sigma> = run_actions c as (exec c a \<sigma>)"

text \<open>All threads at the top of their loops.\<close>

definition init_sys :: "state \<Rightarrow> sys" where
  "init_sys s = \<lparr>shared = s, spc = SIdle, wpc = (\<lambda>w. WIdle)\<rparr>"

subsection \<open>Notions used in the statements\<close>

text \<open>The path the scanner has put on the queue and not yet appended to the list.\<close>

fun pending :: "scanner_pc \<Rightarrow> path set" where
  "pending (SPushed p) = {p}"
| "pending pc = {}"

fun scanning :: "scanner_pc \<Rightarrow> path set" where
  "scanning SIdle = {}"
| "scanning (SChecked p) = {p}"
| "scanning (SPushed p) = {p}"

text \<open>The path a worker has taken from the queue and not yet released.\<close>

fun holding :: "worker_pc \<Rightarrow> path \<Rightarrow> bool" where
  "holding WIdle p = False"
| "holding (WGot q) p = (q = p)"
| "holding (WProcessed q r) p = (q = p)"

text \<open>
  The invariant of the queue, the list \<^verbatim>\<open>self.files\<close> and the program counters: the
  queue is within its capacity; no path occurs twice in the queue or in the list; a path
  in the queue or in a worker's hands is in the list or is the one the scanner has
  pushed and not yet appended; a path in a worker's hands is not in the queue and in no
  other worker's hands; the path the scanner is working on is not yet in the list.
\<close>

definition inv_c :: "path list \<Rightarrow> path list \<Rightarrow> scanner_pc \<Rightarrow> (nat \<Rightarrow> worker_pc) \<Rightarrow> bool" where
  "inv_c q f sp wp \<longleftrightarrow>
     length q \<le> maxsize \<and> distinct q \<and> distinct f \<and>
     (\<forall>p. p \<in> set q \<longrightarrow> p \<in> set f \<or> p \<in> pending sp) \<and>
     (\<forall>w p. holding (wp w) p \<longrightarrow> p \<in> set f \<or> p \<in> pending sp) \<and>
     (\<forall>w p. holding (wp w) p \<longrightarrow> p \<notin> set q) \<and>
     (\<forall>w w' p. holding (wp w) p \<longrightarrow> holding (wp w') p \<longrightarrow> w = w') \<and>
     (\<forall>p. p \<in> scanning sp \<longrightarrow> p \<notin> set f)"

definition inv :: "sys \<Rightarrow> bool" where
  "inv \<sigma> = inv_c (queue (shared \<sigma>)) (files (shared \<sigma>)) (spc \<sigma>) (wpc \<sigma>)"

text \<open>The events appended to the log between two states.\<close>

definition new_events :: "state \<Rightarrow> state \<Rightarrow> event list" where
  "new_events s s' = drop (length (log s)) (log s')"

fun fs_mutation :: "event \<Rightarrow> bool" where
  "fs_mutation (FsRename a b) = True"
| "fs_mutation (FsRemove a) = True"
| "fs_mutation e = False"

text \<open>The events a call of \<^verbatim>\<open>_upload_file\<close> on the path \<open>p\<close> can produce.\<close>

fun upload_event :: "path \<Rightarrow> event \<Rightarrow> bool" where
  "upload_event p (AddTask t d n) = False"
| "upload_event p (RemoveTask t) = False"
| "upload_event p (FsRename a b) = False"
| "upload_event p (FsRemove a) = False"
| "upload_event p (Sleep n) = False"
| "upload_event p (FileOpen q) = (q = p)"
| "upload_event p e = True"

definition quiet :: "path \<Rightarrow> state \<Rightarrow> state \<Rightarrow> bool" where
  "quiet p s s' \<longleftrightarrow>
     fs s' = fs s \<and> queue s' = queue s \<and> files s' = files s \<and> workers s' = workers s \<and>
     run s' = run s \<and> task_index s' = task_index s \<and> dom (tasks s') = dom (tasks s) \<and>
     (\<exists>l. log s' = log s @ l \<and> list_all (upload_event p) l)"

text \<open>The events of lines 162 to 166 after an upload that returned \<^verbatim>\<open>True\<close>.\<close>

definition post_events :: "config \<Rightarrow> path \<Rightarrow> task_id \<Rightarrow> event list" where
  "post_events c p t =
     (if mv c \<noteq> [] then [FsRename p (join (mv c) (basename p)), RemoveTask t, Print (basename p)]
      else if rm c then [FsRemove p, RemoveTask t, Print (basename p)]
      else [Print (basename p)])"

text \<open>The bytes by which the log advances the progress of a task.\<close>

fun advance_of :: "task_id \<Rightarrow> event \<Rightarrow> nat" where
  "advance_of t (Advance t' n) = (if t' = t then n else 0)"
| "advance_of t e = 0"

definition advanced :: "task_id \<Rightarrow> event list \<Rightarrow> nat" where
  "advanced t l = sum_list (map (advance_of t) l)"

text \<open>
  One turn of the scanner on a directory that lists the single name \<open>name\<close>, followed
  by one turn of a worker.
\<close>

definition scan_and_work :: "config \<Rightarrow> env \<Rightarrow> string \<Rightarrow> state \<Rightarrow> state" where
  "scan_and_work c ev name s = snd (worker_iteration c ev (snd (scanner_iteration c [name] s)))"

text \<open>
  The path \<open>p\<close> is in the list \<^verbatim>\<open>self.files\<close>, or the scanner has pushed it and
  is about to append it, and no thread has it in the queue or in its hands.
\<close>

definition settled :: "path \<Rightarrow> sys \<Rightarrow> bool" where
  "settled p \<sigma> \<longleftrightarrow>
     (p \<in> set (files (shared \<sigma>)) \<or> spc \<sigma> = SPushed p) \<and>
     p \<notin> set (queue (shared \<sigma>)) \<and>
     (\<forall>w. \<not> holding (wpc \<sigma> w) p) \<and> spc \<sigma> \<noteq> SChecked p"

text \<open>Concrete inputs for the evaluations below.\<close>

definition env_ok :: env where
  "env_ok = \<lparr>connect_res = None, cwd_res = None, open_res = None, stor_res = StorOk,
             quit_res = None, rename_res = None, remove_res = None, getsize_res = None\<rparr>"

definition cfg_plain :: config where
  "cfg_plain = \<lparr>source_dir = ''/in'', server = ''host'', user = ''anonymous'', passwd = [],
                rm = False, mv = [], remote_dir = ''/'', num_threads = 3\<rparr>"

definition state_of :: "(path \<rightharpoonup> bytes) \<Rightarrow> state" where
  "state_of f = \<lparr>queue = [], files = [], workers = map WorkerThread [0 ..< 3] @ [ScannerThread],
                 run = True, fs = f, tasks = Map.empty, task_index = 0, log = []\<rparr>"

definition fs_example :: "path \<rightharpoonup> bytes" where
  "fs_example = [''/in/a'' \<mapsto> replicate 10 0, ''/in/z'' \<mapsto> []]"

text \<open>A directory with the empty file \<open>z\<close> and fifteen files \<open>fa\<close> to \<open>fo\<close> of one byte.\<close>

definition fs_many :: "path \<rightharpoonup> bytes" where
  "fs_many = map_of ((''/in/z'', []) # map (\<lambda>n. (''/in/f'' @ [n], [1])) ''abcdefghijklmno'')"

definition listing_many :: "string list" where
  "listing_many = map (\<lambda>n. ''f'' @ [n]) ''abcdefghijklmno'' @ [''z'']"

definition args_example :: args where
  "args_example = \<lparr>source = ''/in'', ftp_server = ''host'', threads = 3, ftp_user = ''anonymous'',
            ftp_password = [], ftp_port = 21, ftp_dir = ''/'', move = [], remove = False,
            debug = False\<rparr>"

section \<open>Theorems\<close>

subsection \<open>What an upload leaves untouched\<close>

lemma emit_simps [simp]:
  "queue (emit e s) = queue s" "files (emit e s) = files s" "workers (emit e s) = workers s"
  "run (emit e s) = run s" "fs (emit e s) = fs s" "tasks (emit e s) = tasks s"
  "task_index (emit e s) = task_index s" "log (emit e s) = log s @ [e]"
  by (simp_all add: emit_def)

lemma quiet_refl [simp]: "quiet p s s"
  by (simp add: quiet_def)

lemma quiet_trans: "quiet p s s1 \<Longrightarrow> quiet p s1 s2 \<Longrightarrow> quiet p s s2"
  by (auto simp: quiet_def)

lemma quiet_emit: "upload_event p e \<Longrightarrow> quiet p s s1 \<Longrightarrow> quiet p s (emit e s1)"
  by (auto simp: quiet_def emit_def)

lemma quiet_ftp_connect: "quiet p s s1 \<Longrightarrow> quiet p s (snd (ftp_connect c ev s1))"
  by (auto simp: ftp_connect_def Let_def intro!: quiet_emit split: option.splits)

lemma quiet_ftp_cwd: "quiet p s s1 \<Longrightarrow> quiet p s (snd (ftp_cwd d ev s1))"
  by (auto simp: ftp_cwd_def Let_def intro!: quiet_emit split: option.splits)

lemma quiet_ftp_quit: "quiet p s s1 \<Longrightarrow> quiet p s (snd (ftp_quit ev s1))"
  by (auto simp: ftp_quit_def Let_def intro!: quiet_emit split: option.splits)

lemma quiet_py_open: "quiet p s s1 \<Longrightarrow> quiet p s (snd (py_open ev p s1))"
  by (auto simp: py_open_def intro!: quiet_emit split: option.splits)

lemma quiet_start_task: "quiet p s s1 \<Longrightarrow> quiet p s (snd (start_task t s1))"
  by (auto simp: start_task_def quiet_def emit_def split: option.splits)

lemma quiet_handle: "quiet p s s1 \<Longrightarrow> quiet p s (snd (handle t b s1))"
  by (auto simp: handle_def update_advance_def quiet_def emit_def split: option.splits)

lemma quiet_send_blocks: "quiet p s s1 \<Longrightarrow> quiet p s (snd (send_blocks (handle t) bs s1))"
proof (induction bs arbitrary: s1)
  case Nil
  then show ?case by simp
next
  case (Cons b bs)
  have q: "quiet p s (snd (handle t b (emit (FtpSend (length b)) s1)))"
    by (rule quiet_handle) (simp add: quiet_emit Cons.prems)
  show ?case
  proof (cases "handle t b (emit (FtpSend (length b)) s1)")
    case (Pair r s2)
    with q have q2: "quiet p s s2" by simp
    show ?thesis
      using Pair q2 Cons.IH [OF q2] by (cases r) simp_all
  qed
qed

lemma quiet_storbinary:
  "quiet p s s1 \<Longrightarrow> quiet p s (snd (storbinary ev n f k (handle t) s1))"
proof -
  assume a: "quiet p s s1"
  have e: "quiet p s (emit (FtpStor n) s1)" using a by (simp add: quiet_emit)
  show ?thesis
    using quiet_send_blocks [OF e, of t]
    by (auto simp: storbinary_def Let_def split: stor_outcome.splits prod.splits sum.splits)
       (metis snd_conv)+
qed

lemma quiet_open_handlers: "quiet p s s1 \<Longrightarrow> quiet p s (snd (open_handlers n e s1))"
  by (auto simp: open_handlers_def intro!: quiet_emit)

lemma quiet_stor_handlers: "quiet p s s1 \<Longrightarrow> quiet p s (snd (stor_handlers n e s1))"
  by (auto simp: stor_handlers_def intro!: quiet_emit quiet_open_handlers)

lemma quiet_upload_stor: "quiet p s s1 \<Longrightarrow> quiet p s (snd (upload_stor ev p n t s1))"
proof -
  assume a: "quiet p s s1"
  note o = quiet_py_open [OF a, of ev]
  show ?thesis
  proof (cases "py_open ev p s1")
    case (Pair r1 s2)
    with o have q2: "quiet p s s2" by simp
    show ?thesis
    proof (cases r1)
      case (Inl e)
      then show ?thesis using Pair q2 by (simp add: upload_stor_def quiet_open_handlers)
    next
      case (Inr f)
      note st = quiet_start_task [OF q2, of t]
      show ?thesis
      proof (cases "start_task t s2")
        case P2: (Pair r2 s3)
        with st have q3: "quiet p s s3" by simp
        note sb = quiet_storbinary [OF q3, of ev n f 1024 t]
        show ?thesis
          using Pair Inr P2 q3 sb
          by (auto simp: upload_stor_def quiet_stor_handlers split: sum.splits prod.splits)
      qed
    qed
  qed
qed

lemma quiet_upload_file: "quiet p s (snd (upload_file c ev p n t s))"
proof -
  have q0: "quiet p s s" by simp
  note c1 = quiet_ftp_connect [OF q0, of c ev]
  show ?thesis
  proof (cases "ftp_connect c ev s")
    case (Pair r1 s1)
    with c1 have q1: "quiet p s s1" by simp
    note c2 = quiet_ftp_cwd [OF q1, of "remote_dir c" ev]
    show ?thesis
    proof (cases "ftp_cwd (remote_dir c) ev s1")
      case P2: (Pair r2 s2)
      with c2 have q2: "quiet p s s2" by simp
      note c3 = quiet_upload_stor [OF q2, of ev n t]
      show ?thesis
      proof (cases "upload_stor ev p n t s2")
        case P3: (Pair r3 s3)
        with c3 have q3: "quiet p s s3" by simp
        show ?thesis
          using Pair P2 P3 q1 q2 q3 quiet_ftp_quit [OF q3, of ev]
            quiet_ftp_quit [OF quiet_emit [OF _ q2], of "PrintErr (''Error: '' @ str_exn FtpError)" ev]
          by (auto simp: upload_file_def quiet_emit split: sum.splits prod.splits)
      qed
    qed
  qed
qed


lemma quiet_dom: "quiet p s s' \<Longrightarrow> tasks s t \<noteq> None \<Longrightarrow> tasks s' t \<noteq> None"
  by (auto simp: quiet_def dom_def set_eq_iff)

lemma quiet_process_handlers: "quiet p s s1 \<Longrightarrow> quiet p s (process_handlers n e s1)"
  by (auto simp: process_handlers_def intro!: quiet_emit)

lemma process_try_False:
  assumes "process_try c ev p n t s = (False, s2)" and "tasks s t \<noteq> None"
  shows "quiet p s s2"
proof (cases "upload_file c ev p n t s")
  case (Pair r su)
  have qu: "quiet p s su" using quiet_upload_file [of p s c ev n t] Pair by simp
  have tu: "tasks su t \<noteq> None" using quiet_dom [OF qu assms(2)] .
  show ?thesis
    using assms(1) Pair qu tu
    by (auto simp: process_try_def move_file_def delete_file_def os_rename_def os_remove_def
          remove_task_def quiet_process_handlers
        split: sum.splits if_splits prod.splits option.splits)
qed

lemma process_try_True:
  assumes "process_try c ev p (basename p) t s = (True, s2)"
  shows "\<exists>su. upload_file c ev p (basename p) t s = (Inr True, su) \<and>
           log s2 = log su @ post_events c p t \<and> queue s2 = queue su \<and> files s2 = files su"
proof (cases "upload_file c ev p (basename p) t s")
  case (Pair r su)
  show ?thesis
    using assms(1) Pair
    by (auto simp: process_try_def move_file_def delete_file_def os_rename_def os_remove_def
          remove_task_def post_events_def
        split: sum.splits if_splits prod.splits option.splits)
qed

subsection \<open>The outcomes of processing one file\<close>

lemma process_file_removed:
  "fs s p = None \<Longrightarrow>
   process_file c ev p s = (Inr False, emit (PrintErr (basename p @ '' has been removed'')) s)"
  by (simp add: process_file_def isfile_def Let_def)

lemma process_file_zero:
  "fs s p = Some [] \<Longrightarrow> getsize_res ev = None \<Longrightarrow>
   process_file c ev p s = (Inr False, emit (PrintErr (basename p @ '' zero file size'')) s)"
  by (simp add: process_file_def isfile_def stat_size_def getsize_def Let_def)

lemma process_file_raise:
  "fs s p \<noteq> None \<Longrightarrow> getsize_res ev = Some e \<Longrightarrow> process_file c ev p s = (Inl e, s)"
  by (simp add: process_file_def isfile_def stat_size_def Let_def)

lemma process_file_cases:
  assumes "fs s p = Some b" "b \<noteq> []" "process_file c ev p s = (r, s')" "getsize_res ev = None"
  shows "queue s' = queue s \<and> files s' = files s \<and>
     (\<exists>l. list_all (upload_event p) l \<and>
        (r = Inr False \<and> fs s' = fs s \<and>
           log s' = log s @ AddTask (task_index s) (basename p) (length b) # l @ [RemoveTask (task_index s)]
         \<or> r = Inr True \<and>
           (\<exists>su. upload_file c ev p (basename p) (task_index s)
                   (snd (add_task (basename p) (length b) s)) = (Inr True, su) \<and>
                 fs su = fs s \<and>
                 log su = log s @ AddTask (task_index s) (basename p) (length b) # l \<and>
                 log s' = log su @ post_events c p (task_index s))))"
proof -
  define t where "t = task_index s"
  define s1 where "s1 = snd (add_task (basename p) (length b) s)"
  have at: "add_task (basename p) (length b) s = (t, s1)"
    by (simp add: add_task_def t_def s1_def)
  have s1: "fs s1 = fs s" "queue s1 = queue s" "files s1 = files s" "tasks s1 t \<noteq> None"
    "log s1 = log s @ [AddTask t (basename p) (length b)]"
    by (simp_all add: s1_def add_task_def t_def)
  obtain ret s2 where pt: "process_try c ev p (basename p) t s1 = (ret, s2)"
    by (cases "process_try c ev p (basename p) t s1")
  have pf: "process_file c ev p s =
      (if ret then (Inr True, s2)
       else (case remove_task t s2 of (Inl e, s3) \<Rightarrow> (Inl e, s3) | (Inr u, s3) \<Rightarrow> (Inr False, s3)))"
    using assms(1,2,4) at pt
    by (simp add: process_file_def isfile_def stat_size_def getsize_def Let_def)
  show ?thesis
  proof (cases ret)
    case True
    with pf assms(3) have r: "r = Inr True" "s' = s2" by simp_all
    from process_try_True [of c ev p t s1 s2] pt True
    obtain su where su: "upload_file c ev p (basename p) t s1 = (Inr True, su)"
      "log s2 = log su @ post_events c p t" "queue s2 = queue su" "files s2 = files su"
      by auto
    have q: "quiet p s1 su" using quiet_upload_file [of p s1 c ev "basename p" t] su(1) by simp
    then obtain l where l: "log su = log s1 @ l" "list_all (upload_event p) l"
      by (auto simp: quiet_def)
    show ?thesis
      using r su q l s1 by (auto simp: quiet_def t_def s1_def)
  next
    case False
    with pt have "process_try c ev p (basename p) t s1 = (False, s2)" by simp
    then have q: "quiet p s1 s2" using s1(4) by (rule process_try_False)
    then obtain l where l: "log s2 = log s1 @ l" "list_all (upload_event p) l"
      by (auto simp: quiet_def)
    have "tasks s2 t \<noteq> None" using quiet_dom [OF q s1(4)] .
    then obtain tk where tk: "tasks s2 t = Some tk" by auto
    with pf False assms(3) have r: "r = Inr False"
      "s' = emit (RemoveTask t) (s2\<lparr>tasks := (tasks s2)(t := None)\<rparr>)"
      by (simp_all add: remove_task_def)
    show ?thesis
      using r q l s1 by (auto simp: quiet_def t_def)
  qed
qed

text \<open>
  The three ways a call of \<^verbatim>\<open>_process_file\<close> can go: line 152 raises and nothing has
  happened; the file is skipped with a message; the file has content and is uploaded.
\<close>

lemma process_file_outcome:
  obtains (raised) e where "process_file c ev p s = (Inl e, s)"
  | (skipped) m where "process_file c ev p s = (Inr False, emit (PrintErr m) s)"
  | (run) b where "fs s p = Some b" "b \<noteq> []" "getsize_res ev = None"
proof (cases "fs s p")
  case None
  then show ?thesis using skipped process_file_removed by blast
next
  case (Some b)
  show ?thesis
  proof (cases "getsize_res ev")
    case None
    show ?thesis
    proof (cases "b = []")
      case True
      then show ?thesis using skipped process_file_zero Some None by blast
    next
      case False
      then show ?thesis using run Some None by blast
    qed
  next
    case (Some e)
    then show ?thesis using raised process_file_raise \<open>fs s p = Some b\<close> by blast
  qed
qed

lemma upload_events_no_removal:
  "list_all (upload_event p) l \<Longrightarrow> count_list l (RemoveTask t) = 0"
  by (induction l) auto

lemma upload_events_no_mutation:
  "list_all (upload_event p) l \<Longrightarrow> \<not> list_ex fs_mutation l"
proof (induction l)
  case Nil
  then show ?case by simp
next
  case (Cons e l)
  then show ?case by (cases e) simp_all
qed

lemma new_events_append [simp]: "log s' = log s @ l \<Longrightarrow> new_events s s' = l"
  by (simp add: new_events_def)

lemma process_file_removals:
  assumes "fs s p = Some b" "b \<noteq> []" "process_file c ev p s = (r, s')" "getsize_res ev = None"
  shows "count_list (new_events s s') (RemoveTask (task_index s)) =
           (if r = Inr True \<and> mv c = [] \<and> \<not> rm c then 0 else 1)"
  using process_file_cases [OF assms]
  by (auto simp: post_events_def upload_events_no_removal)

subsection \<open>Blocks and progress\<close>

lemma read_blocks_Nil: "read_blocks n [] = []"
  by (subst read_blocks.simps) simp

lemma read_blocks_Cons:
  "0 < n \<Longrightarrow> xs \<noteq> [] \<Longrightarrow> read_blocks n xs = take n xs # read_blocks n (drop n xs)"
  by (subst read_blocks.simps) simp

lemma ceil_div_step:
  fixes n k :: nat
  assumes "0 < n" "0 < k"
  shows "(k + n - 1) div n = Suc ((k - n + n - 1) div n)"
proof (cases "n \<le> k")
  case True
  then have "k + n - 1 = (k - 1) + n" using assms by arith
  then have "(k + n - 1) div n = ((k - 1) + n) div n" by (simp only:)
  also have "\<dots> = (k - 1) div n + 1" using assms(1) by (intro div_add_self2) simp
  also have "\<dots> = Suc ((k - 1) div n)" by simp
  finally have "(k + n - 1) div n = Suc ((k - 1) div n)" .
  moreover have "k - n + n - 1 = k - 1" using True by arith
  ultimately show ?thesis by simp
next
  case False
  then have a: "k - n + n - 1 = n - 1" by arith
  have "n \<le> k + n - 1" "k + n - 1 < 2 * n" using False assms by arith+
  then have b: "(k + n - 1) div n = 1"
    by (intro div_nat_eqI) simp_all
  have c: "(n - 1) div n = 0" using assms by simp
  show ?thesis using a b c by simp
qed

lemma read_blocks_length: "0 < n \<Longrightarrow> length (read_blocks n xs) = (length xs + n - 1) div n"
proof (induction "length xs" arbitrary: xs rule: less_induct)
  case less
  show ?case
  proof (cases "xs = []")
    case True
    then show ?thesis using less.prems by (simp add: read_blocks_Nil)
  next
    case False
    then have len: "0 < length xs" by simp
    have "length (drop n xs) < length xs" using len less.prems by simp
    then have ih: "length (read_blocks n (drop n xs)) = (length (drop n xs) + n - 1) div n"
      using less.hyps less.prems by blast
    have "length (read_blocks n xs) = Suc (length (read_blocks n (drop n xs)))"
      using False less.prems by (simp add: read_blocks_Cons)
    also have "\<dots> = Suc ((length xs - n + n - 1) div n)" using ih by simp
    also have "\<dots> = (length xs + n - 1) div n"
      using ceil_div_step [OF less.prems len] by simp
    finally show ?thesis .
  qed
qed

lemma send_blocks_advanced:
  "send_blocks (handle t) bs s = (Inr (), s') \<Longrightarrow>
   advanced t (log s') = advanced t (log s) + 1024 * length bs"
proof (induction bs arbitrary: s)
  case Nil
  then show ?case by simp
next
  case (Cons b bs)
  obtain r s1 where h: "handle t b (emit (FtpSend (length b)) s) = (r, s1)"
    by (cases "handle t b (emit (FtpSend (length b)) s)")
  with Cons.prems have r: "r = Inr ()" and rest: "send_blocks (handle t) bs s1 = (Inr (), s')"
    by (auto split: sum.splits)
  from h r have "log s1 = log s @ [FtpSend (length b), Advance t 1024]"
    by (auto simp: handle_def update_advance_def split: option.splits)
  then have "advanced t (log s1) = advanced t (log s) + 1024"
    by (simp add: advanced_def)
  with Cons.IH [OF rest] show ?case by simp
qed

lemma storbinary_advanced:
  assumes "storbinary ev n f 1024 (handle t) s = (Inr (), s')"
  shows "advanced t (log s') = advanced t (log s) + 1024 * ((length f + 1023) div 1024)"
proof -
  from assms have sb: "send_blocks (handle t) (read_blocks 1024 f) (emit (FtpStor n) s) = (Inr (), s')"
    by (auto simp: storbinary_def Let_def split: stor_outcome.splits prod.splits sum.splits)
  have "advanced t (log (emit (FtpStor n) s)) = advanced t (log s)"
    by (simp add: advanced_def)
  with send_blocks_advanced [OF sb] show ?thesis
    by (simp add: read_blocks_length)
qed

subsection \<open>The invariant of the threads\<close>

lemma inv_c_check: "inv_c q f SIdle wp \<Longrightarrow> p \<notin> set f \<Longrightarrow> inv_c q f (SChecked p) wp"
  unfolding inv_c_def by simp

lemma inv_c_put:
  assumes "inv_c q f (SChecked p) wp" "length q < maxsize"
  shows "inv_c (q @ [p]) f (SPushed p) wp"
proof -
  from assms(1) have pf: "p \<notin> set f" and qf: "\<forall>x. x \<in> set q \<longrightarrow> x \<in> set f"
    and hf: "\<forall>w x. holding (wp w) x \<longrightarrow> x \<in> set f"
    unfolding inv_c_def by simp_all
  from pf qf have pq: "p \<notin> set q" by blast
  from pf hf have ph: "\<forall>w. \<not> holding (wp w) p" by blast
  show ?thesis
    using assms pq ph unfolding inv_c_def by auto
qed

lemma inv_c_full: "inv_c q f (SChecked p) wp \<Longrightarrow> inv_c q f SIdle wp"
  unfolding inv_c_def by simp

lemma inv_c_append: "inv_c q f (SPushed p) wp \<Longrightarrow> inv_c q (f @ [p]) SIdle wp"
  unfolding inv_c_def by auto

lemma inv_c_get:
  assumes "inv_c (p # q) f sp wp" "wp w = WIdle"
  shows "inv_c q f sp (wp(w := WGot p))" and "inv_c q f sp wp"
proof -
  from assms(1) have a: "length q \<le> maxsize" "distinct q" "distinct f" "p \<notin> set q"
    "p \<in> set f \<or> p \<in> pending sp"
    "\<forall>x. x \<in> set q \<longrightarrow> x \<in> set f \<or> x \<in> pending sp"
    "\<forall>w x. holding (wp w) x \<longrightarrow> x \<in> set f \<or> x \<in> pending sp"
    "\<forall>w x. holding (wp w) x \<longrightarrow> x \<noteq> p \<and> x \<notin> set q"
    "\<forall>w w' x. holding (wp w) x \<longrightarrow> holding (wp w') x \<longrightarrow> w = w'"
    "\<forall>x. x \<in> scanning sp \<longrightarrow> x \<notin> set f"
    unfolding inv_c_def by auto
  show "inv_c q f sp wp" using a unfolding inv_c_def by blast
  show "inv_c q f sp (wp(w := WGot p))"
    unfolding inv_c_def
  proof (intro conjI allI impI)
    fix w1 w2 x
    assume "holding ((wp(w := WGot p)) w1) x" "holding ((wp(w := WGot p)) w2) x"
    then show "w1 = w2" using a(8,9) by (auto split: if_splits)
  qed (use a in \<open>auto split: if_splits\<close>)
qed

lemma inv_c_process:
  assumes "inv_c q f sp wp" "wp w = WGot p"
  shows "inv_c q f sp (wp(w := WProcessed p r))"
proof -
  have h: "\<And>w' x. holding ((wp(w := WProcessed p r)) w') x = holding (wp w') x"
    using assms(2) by simp
  show ?thesis using assms(1) unfolding inv_c_def h .
qed

lemma inv_c_release:
  assumes "inv_c q f sp wp" "wp w = WProcessed p r"
  shows "inv_c q f sp (wp(w := WIdle))" and "inv_c q (remove1 p f) sp (wp(w := WIdle))"
proof -
  from assms(1) have a: "length q \<le> maxsize" "distinct q" "distinct f"
    "\<forall>x. x \<in> set q \<longrightarrow> x \<in> set f \<or> x \<in> pending sp"
    "\<forall>w x. holding (wp w) x \<longrightarrow> x \<in> set f \<or> x \<in> pending sp"
    "\<forall>w x. holding (wp w) x \<longrightarrow> x \<notin> set q"
    "\<forall>w w' x. holding (wp w) x \<longrightarrow> holding (wp w') x \<longrightarrow> w = w'"
    "\<forall>x. x \<in> scanning sp \<longrightarrow> x \<notin> set f"
    unfolding inv_c_def by auto
  have hp: "holding (wp w) p" using assms(2) by simp
  have pq: "p \<notin> set q" using a(6) hp by blast
  have other: "\<And>w' x. w' \<noteq> w \<Longrightarrow> holding (wp w') x \<Longrightarrow> x \<noteq> p"
    using a(7) hp by blast
  show "inv_c q f sp (wp(w := WIdle))"
    unfolding inv_c_def
  proof (intro conjI allI impI)
    fix w1 w2 x
    assume "holding ((wp(w := WIdle)) w1) x" "holding ((wp(w := WIdle)) w2) x"
    then show "w1 = w2" using a(7) by (auto split: if_splits)
  qed (use a in \<open>auto split: if_splits\<close>)
  show "inv_c q (remove1 p f) sp (wp(w := WIdle))"
    unfolding inv_c_def
  proof (intro conjI allI impI)
    fix w1 w2 x
    assume "holding ((wp(w := WIdle)) w1) x" "holding ((wp(w := WIdle)) w2) x"
    then show "w1 = w2" using a(7) by (auto split: if_splits)
  next
    fix x assume "x \<in> set q"
    then show "x \<in> set (remove1 p f) \<or> x \<in> pending sp" using a(3,4) pq by auto
  next
    fix w1 x assume "holding ((wp(w := WIdle)) w1) x"
    then have "w1 \<noteq> w" "holding (wp w1) x" by (auto split: if_splits)
    then show "x \<in> set (remove1 p f) \<or> x \<in> pending sp" using a(3,5) other by auto
  qed (use a in \<open>auto split: if_splits\<close>)
qed


lemma process_file_frame:
  "queue (snd (process_file c ev p s)) = queue s \<and> files (snd (process_file c ev p s)) = files s"
proof (cases rule: process_file_outcome [of c ev p s])
  case (raised e)
  then show ?thesis by simp
next
  case (skipped m)
  then show ?thesis by simp
next
  case (run b)
  show ?thesis
    using process_file_cases [OF run(1,2) _ run(3), of c "fst (process_file c ev p s)"
        "snd (process_file c ev p s)"]
    by simp
qed

lemma process_file_returns:
  assumes "getsize_res ev = None"
  shows "\<exists>b. fst (process_file c ev p s) = Inr b"
proof (cases "fs s p")
  case None
  then have "fst (process_file c ev p s) = Inr False" by (simp add: process_file_removed)
  then show ?thesis ..
next
  case (Some b)
  show ?thesis
  proof (cases "b = []")
    case True
    then have "fst (process_file c ev p s) = Inr False"
      using Some assms by (simp add: process_file_zero)
    then show ?thesis ..
  next
    case False
    show ?thesis
      using process_file_cases [OF Some False _ assms, of c "fst (process_file c ev p s)"
          "snd (process_file c ev p s)"]
      by auto
  qed
qed

lemma worker_release_frame:
  "queue (worker_release c p r s) = queue s \<and>
   (files (worker_release c p r s) = files s \<or> files (worker_release c p r s) = remove1 p (files s))"
  by (auto simp: worker_release_def worker_handlers_def list_remove_def split: sum.splits)

lemma inv_init: "queue s = [] \<Longrightarrow> files s = [] \<Longrightarrow> inv (init_sys s)"
  by (simp add: inv_def inv_c_def init_sys_def)

lemma inv_ScanCheck: "inv \<sigma> \<Longrightarrow> inv (exec c (ScanCheck p) \<sigma>)"
  by (auto simp: inv_def intro: inv_c_check)

lemma inv_ScanPut: "inv \<sigma> \<Longrightarrow> inv (exec c ScanPut \<sigma>)"
  by (cases "spc \<sigma>") (auto simp: inv_def queue_put_def intro: inv_c_put inv_c_full)

lemma inv_ScanAppend: "inv \<sigma> \<Longrightarrow> inv (exec c ScanAppend \<sigma>)"
  by (cases "spc \<sigma>") (auto simp: inv_def intro: inv_c_append)

lemma inv_WorkerGet: "inv \<sigma> \<Longrightarrow> inv (exec c (WorkerGet w) \<sigma>)"
  by (cases "queue (shared \<sigma>)") (auto simp: inv_def queue_get_def fun_upd_idem intro: inv_c_get)

lemma inv_WorkerProcess: "inv \<sigma> \<Longrightarrow> inv (exec c (WorkerProcess w ev) \<sigma>)"
proof (cases "wpc \<sigma> w")
  case (WGot p)
  assume i: "inv \<sigma>"
  obtain r s' where pf: "process_file c ev p (shared \<sigma>) = (r, s')"
    by (cases "process_file c ev p (shared \<sigma>)")
  with process_file_frame [of c ev p "shared \<sigma>"]
  have fr: "queue s' = queue (shared \<sigma>)" "files s' = files (shared \<sigma>)" by simp_all
  show ?thesis using i WGot pf fr by (simp add: inv_def inv_c_process)
qed simp_all

lemma inv_WorkerRelease: "inv \<sigma> \<Longrightarrow> inv (exec c (WorkerRelease w) \<sigma>)"
proof (cases "wpc \<sigma> w")
  case (WProcessed p r)
  assume i: "inv \<sigma>"
  from worker_release_frame [of c p r "shared \<sigma>"]
  show ?thesis using i WProcessed inv_c_release [of "queue (shared \<sigma>)" "files (shared \<sigma>)" "spc \<sigma>" "wpc \<sigma>" w p r]
    by (auto simp: inv_def)
qed simp_all

lemma inv_EnvWrite: "inv \<sigma> \<Longrightarrow> inv (exec c (EnvWrite p v) \<sigma>)"
  by (simp add: inv_def)

lemma inv_exec: "inv \<sigma> \<Longrightarrow> inv (exec c a \<sigma>)"
  by (cases a) (simp_all only: inv_ScanCheck inv_ScanPut inv_ScanAppend inv_WorkerGet
      inv_WorkerProcess inv_WorkerRelease inv_EnvWrite)

lemma inv_run: "inv \<sigma> \<Longrightarrow> inv (run_actions c acts \<sigma>)"
  by (induction acts arbitrary: \<sigma>) (simp_all add: inv_exec)

lemma main_initial: "main isdir abspath fs0 a = Inr (c, s0) \<Longrightarrow> queue s0 = [] \<and> files s0 = []"
  by (auto simp: main_def AutoUploadModule_init_def start_def Let_def split: if_splits)

text \<open>The steps compose to the source functions.\<close>

lemma append_file_steps:
  "spc \<sigma> = SIdle \<Longrightarrow>
   exec c ScanAppend (exec c ScanPut (exec c (ScanCheck p) \<sigma>)) =
     \<sigma>\<lparr>shared := snd (append_file p (shared \<sigma>))\<rparr>"
  by (auto simp: append_file_def queue_put_def)

lemma worker_iteration_steps:
  "wpc \<sigma> w = WIdle \<Longrightarrow> int w < num_threads c \<Longrightarrow>
   exec c (WorkerRelease w) (exec c (WorkerProcess w ev) (exec c (WorkerGet w) \<sigma>)) =
     \<sigma>\<lparr>shared := snd (worker_iteration c ev (shared \<sigma>))\<rparr>"
  by (auto simp: worker_iteration_def queue_get_def Let_def fun_upd_idem
        split: list.splits prod.splits)

subsection \<open>The scanner never raises; what a worker's turn does to the list\<close>

lemma main_example:
  "main (\<lambda>d. True) (\<lambda>p. p) fs_example args_example = Inr (cfg_plain, state_of fs_example)"
  by (simp add: main_def args_example_def cfg_plain_def state_of_def AutoUploadModule_init_def
        start_def isabs_def)

lemma append_file_returns: "fst (append_file p s) = Inr ()"
  by (simp add: append_file_def queue_put_def)

lemma scanner_loop_returns: "fst (scanner_loop c fl s) = Inr ()"
proof (induction fl arbitrary: s)
  case Nil
  then show ?case by simp
next
  case (Cons f fl)
  have "fst (scanner_file c f s) = Inr ()"
    by (simp add: scanner_file_def Let_def append_file_returns)
  then show ?case using Cons.IH by (cases "scanner_file c f s") auto
qed

lemma scanner_iteration_returns: "fst (scanner_iteration c listing s) = Inr ()"
  by (simp add: scanner_iteration_def Let_def scanner_loop_returns)




subsection \<open>A zero-byte file, scan after scan\<close>

lemma stat_size_zero:
  "stat_size ev s p = Inr 0 \<longleftrightarrow> fs s p = Some [] \<and> getsize_res ev = None"
  by (auto simp: stat_size_def getsize_def split: option.splits)

lemma append_file_enqueues:
  assumes "p \<notin> set (files s)" "fs s p \<noteq> None" "length (queue s) < maxsize"
  shows "append_file p s = (Inr (), s\<lparr>queue := queue s @ [p], files := files s @ [p]\<rparr>)"
  using assms by (simp add: append_file_def queue_put_def isfile_def)

lemma worker_iteration_zero:
  assumes "queue s = p # q" "p \<noteq> []" "fs s p = Some []" "getsize_res ev = None"
  shows "snd (worker_iteration c ev s) =
           (emit (PrintErr (basename p @ '' zero file size'')) (s\<lparr>queue := q\<rparr>))
             \<lparr>files := (if rm c \<or> mv c \<noteq> [] then remove1 p (files s) else files s)\<rparr>"
proof -
  have "process_file c ev p (s\<lparr>queue := q\<rparr>) =
          (Inr False, emit (PrintErr (basename p @ '' zero file size'')) (s\<lparr>queue := q\<rparr>))"
    using process_file_zero [of "s\<lparr>queue := q\<rparr>" p ev c] assms(3,4) by simp
  then have "snd (worker_iteration c ev s) =
      worker_release c p (Inr False)
        (emit (PrintErr (basename p @ '' zero file size'')) (s\<lparr>queue := q\<rparr>))"
    using assms(1,2) by (simp add: worker_iteration_def queue_get_def Let_def)
  also have "\<dots> = (emit (PrintErr (basename p @ '' zero file size'')) (s\<lparr>queue := q\<rparr>))
             \<lparr>files := (if rm c \<or> mv c \<noteq> [] then remove1 p (files s) else files s)\<rparr>"
    by (intro state.equality)
       (auto simp: worker_release_def worker_handlers_def list_remove_def remove1_idem emit_def)
  finally show ?thesis .
qed

lemma scanner_iteration_single:
  assumes "p = join (source_dir c) name" "fs s p \<noteq> None" "p \<notin> set (files s)"
    "length (queue s) < maxsize" "mv c \<noteq> [] \<longrightarrow> fs s (join (mv c) name) = None"
  shows "snd (scanner_iteration c [name] s) =
           (emit (Sleep 1) s)\<lparr>queue := queue s @ [p], files := files s @ [p]\<rparr>"
  using assms
  by (auto simp: scanner_iteration_def scanner_file_def append_file_def queue_put_def isfile_def
        Let_def)

lemma scan_and_work_zero:
  assumes "p = join (source_dir c) name" "p \<noteq> []" "fs s p = Some []" "p \<notin> set (files s)"
    "queue s = []" "mv c \<noteq> [] \<longrightarrow> fs s (join (mv c) name) = None" "getsize_res ev = None"
  shows "scan_and_work c ev name s =
           (emit (PrintErr (basename p @ '' zero file size'')) (emit (Sleep 1) s))
             \<lparr>files := (if rm c \<or> mv c \<noteq> [] then files s else files s @ [p])\<rparr>"
proof -
  let ?s1 = "(emit (Sleep 1) s)\<lparr>queue := queue s @ [p], files := files s @ [p]\<rparr>"
  have s1: "snd (scanner_iteration c [name] s) = ?s1"
    using assms(1-6) by (intro scanner_iteration_single) (simp_all add: maxsize_def)
  have q1: "queue ?s1 = p # []" using assms(5) by simp
  have f1: "fs ?s1 p = Some []" using assms(3) by simp
  have "scan_and_work c ev name s =
          (emit (PrintErr (basename p @ '' zero file size'')) (?s1\<lparr>queue := []\<rparr>))
             \<lparr>files := (if rm c \<or> mv c \<noteq> [] then remove1 p (files ?s1) else files ?s1)\<rparr>"
    unfolding scan_and_work_def s1
    using worker_iteration_zero [OF q1 assms(2) f1 assms(7), of c] by simp
  also have "\<dots> = (emit (PrintErr (basename p @ '' zero file size'')) (emit (Sleep 1) s))
             \<lparr>files := (if rm c \<or> mv c \<noteq> [] then files s else files s @ [p])\<rparr>"
    using assms(4,5)
    by (intro state.equality) (auto simp: remove1_append emit_def)
  finally show ?thesis .
qed

lemma scan_and_work_iterate:
  assumes "rm c \<or> mv c \<noteq> []" "p = join (source_dir c) name" "p \<noteq> []" "getsize_res ev = None"
    "fs s p = Some []" "p \<notin> set (files s)" "queue s = []"
    "mv c \<noteq> [] \<longrightarrow> fs s (join (mv c) name) = None"
  shows "files ((scan_and_work c ev name ^^ n) s) = files s \<and>
         queue ((scan_and_work c ev name ^^ n) s) = [] \<and>
         fs ((scan_and_work c ev name ^^ n) s) = fs s \<and>
         log ((scan_and_work c ev name ^^ n) s) =
           log s @ concat (replicate n [Sleep 1, PrintErr (basename p @ '' zero file size'')])"
  using assms(5-8)
proof (induction n arbitrary: s)
  case 0
  then show ?case by simp
next
  case (Suc n)
  let ?s' = "scan_and_work c ev name s"
  have s': "?s' = (emit (PrintErr (basename p @ '' zero file size'')) (emit (Sleep 1) s))
             \<lparr>files := files s\<rparr>"
    using scan_and_work_zero [OF assms(2,3) Suc.prems assms(4)] assms(1) by simp
  have p': "fs ?s' p = Some []" "p \<notin> set (files ?s')" "queue ?s' = []"
    "mv c \<noteq> [] \<longrightarrow> fs ?s' (join (mv c) name) = None"
    using Suc.prems unfolding s' by simp_all
  have "(scan_and_work c ev name ^^ Suc n) s = (scan_and_work c ev name ^^ n) ?s'"
    by (simp add: funpow_swap1)
  with Suc.IH [OF p'] show ?case unfolding s' by simp
qed

lemma upload_events_no_open:
  "list_all (upload_event q) l \<Longrightarrow> q \<noteq> p \<Longrightarrow> count_list l (FileOpen p) = 0"
proof (induction l)
  case Nil
  then show ?case by simp
next
  case (Cons e l)
  then show ?case by (cases e) auto
qed

lemma process_file_opens:
  assumes "q \<noteq> p"
  shows "count_list (log (snd (process_file c ev q s))) (FileOpen p) = count_list (log s) (FileOpen p)"
proof (cases rule: process_file_outcome [of c ev q s])
  case (raised e)
  then show ?thesis by simp
next
  case (skipped m)
  then show ?thesis by simp
next
  case (run b)
  from process_file_cases [OF run(1,2) _ run(3), of c "fst (process_file c ev q s)"
      "snd (process_file c ev q s)"]
  obtain l where l: "list_all (upload_event q) l"
    and d: "log (snd (process_file c ev q s)) =
              log s @ AddTask (task_index s) (basename q) (length b) # l @ [RemoveTask (task_index s)]
          \<or> log (snd (process_file c ev q s)) =
              (log s @ AddTask (task_index s) (basename q) (length b) # l) @ post_events c q (task_index s)"
    by auto
  have z: "count_list l (FileOpen p) = 0" using l assms by (rule upload_events_no_open)
  from d show ?thesis
    using z by (auto simp: post_events_def)
qed

lemma settled_exec:
  assumes "\<not> (rm c \<or> mv c \<noteq> [])" "settled p \<sigma>"
  shows "settled p (exec c a \<sigma>) \<and>
         count_list (log (shared (exec c a \<sigma>))) (FileOpen p) =
           count_list (log (shared \<sigma>)) (FileOpen p)"
proof (cases a)
  case (ScanCheck q)
  then show ?thesis using assms(2) by (auto simp: settled_def)
next
  case ScanPut
  then show ?thesis using assms(2)
    by (cases "spc \<sigma>") (auto simp: settled_def queue_put_def)
next
  case ScanAppend
  then show ?thesis using assms(2)
    by (cases "spc \<sigma>") (auto simp: settled_def)
next
  case (WorkerGet w)
  then show ?thesis using assms(2)
    by (cases "queue (shared \<sigma>)") (auto simp: settled_def queue_get_def)
next
  case (WorkerProcess w ev)
  show ?thesis
  proof (cases "wpc \<sigma> w")
    case (WGot q)
    have "\<not> holding (wpc \<sigma> w) p" using assms(2) by (simp add: settled_def)
    then have qp: "q \<noteq> p" using WGot by simp
    obtain r s' where pf: "process_file c ev q (shared \<sigma>) = (r, s')"
      by (cases "process_file c ev q (shared \<sigma>)")
    from process_file_frame [of c ev q "shared \<sigma>"] pf
    have fr: "queue s' = queue (shared \<sigma>)" "files s' = files (shared \<sigma>)" by simp_all
    from process_file_opens [OF qp, of c ev "shared \<sigma>"] pf
    have op: "count_list (log s') (FileOpen p) = count_list (log (shared \<sigma>)) (FileOpen p)"
      by simp
    show ?thesis using WorkerProcess WGot pf fr op assms(2) qp
      by (auto simp: settled_def)
  qed (use assms(2) WorkerProcess in simp_all)
next
  case (WorkerRelease w)
  then show ?thesis using assms
    by (cases "wpc \<sigma> w")
       (auto simp: settled_def worker_release_def worker_handlers_def split: sum.splits)
next
  case (EnvWrite q v)
  then show ?thesis using assms(2) by (auto simp: settled_def)
qed

lemma settled_run:
  assumes "\<not> (rm c \<or> mv c \<noteq> [])"
  shows "settled p \<sigma> \<Longrightarrow>
         settled p (run_actions c acts \<sigma>) \<and>
         count_list (log (shared (run_actions c acts \<sigma>))) (FileOpen p) =
           count_list (log (shared \<sigma>)) (FileOpen p)"
proof (induction acts arbitrary: \<sigma>)
  case Nil
  then show ?case by simp
next
  case (Cons a acts)
  from settled_exec [OF assms Cons.prems, of a]
  have e: "settled p (exec c a \<sigma>)"
    "count_list (log (shared (exec c a \<sigma>))) (FileOpen p) = count_list (log (shared \<sigma>)) (FileOpen p)"
    by simp_all
  from Cons.IH [OF e(1)] e(2) show ?case by simp
qed

text \<open>After the turn of the worker that holds \<open>p\<close>, nobody holds it any more.\<close>

lemma settled_after_skip:
  assumes "\<not> (rm c \<or> mv c \<noteq> [])" "inv \<sigma>" "wpc \<sigma> w = WGot p"
    "fs (shared \<sigma>) p = Some []" "getsize_res ev = None"
  shows "settled p (exec c (WorkerRelease w) (exec c (WorkerProcess w ev) \<sigma>)) \<and>
         count_list (log (shared (exec c (WorkerRelease w) (exec c (WorkerProcess w ev) \<sigma>))))
           (FileOpen p) = count_list (log (shared \<sigma>)) (FileOpen p)"
proof -
  let ?s = "shared \<sigma>"
  have pf: "process_file c ev p ?s =
      (Inr False, emit (PrintErr (basename p @ '' zero file size'')) ?s)"
    using assms(4,5) by (rule process_file_zero)
  have hp: "holding (wpc \<sigma> w) p" using assms(3) by simp
  from assms(2) have i:
    "\<forall>w x. holding (wpc \<sigma> w) x \<longrightarrow> x \<in> set (files ?s) \<or> x \<in> pending (spc \<sigma>)"
    "\<forall>w x. holding (wpc \<sigma> w) x \<longrightarrow> x \<notin> set (queue ?s)"
    "\<forall>w w' x. holding (wpc \<sigma> w) x \<longrightarrow> holding (wpc \<sigma> w') x \<longrightarrow> w = w'"
    "\<forall>x. x \<in> scanning (spc \<sigma>) \<longrightarrow> x \<notin> set (files ?s)"
    unfolding inv_def inv_c_def by blast+
  have a: "p \<in> set (files ?s) \<or> spc \<sigma> = SPushed p"
    using i(1) hp by (cases "spc \<sigma>") auto
  have b: "p \<notin> set (queue ?s)" using i(2) hp by blast
  have d: "\<And>w'. w' \<noteq> w \<Longrightarrow> \<not> holding (wpc \<sigma> w') p" using i(3) hp by blast
  have e: "spc \<sigma> \<noteq> SChecked p"
  proof
    assume s: "spc \<sigma> = SChecked p"
    then have "p \<notin> set (files ?s)" using i(4) by simp
    moreover have "p \<in> set (files ?s)" using a s by simp
    ultimately show False by contradiction
  qed
  show ?thesis
    using assms(1,3) pf a b d e
    by (auto simp: settled_def worker_release_def)
qed


text \<open>
  What one scan does: it reads the file system without changing it, adds to the queue
  and to the list and never takes away, and a path it adds to the list it has put on
  the queue.
\<close>

lemma scanner_file_effect:
  "fs (snd (scanner_file c f s)) = fs s \<and>
   set (files s) \<subseteq> set (files (snd (scanner_file c f s))) \<and>
   set (queue s) \<subseteq> set (queue (snd (scanner_file c f s))) \<and>
   (\<exists>l. log (snd (scanner_file c f s)) = log s @ l) \<and>
   (\<forall>x. x \<in> set (files (snd (scanner_file c f s))) \<longrightarrow> x \<notin> set (files s) \<longrightarrow>
        x \<in> set (queue (snd (scanner_file c f s))))"
  by (auto simp: scanner_file_def append_file_def queue_put_def Let_def)

lemma scanner_loop_unfold:
  "snd (scanner_loop c (f # fl) s) = snd (scanner_loop c fl (snd (scanner_file c f s)))"
proof -
  have "fst (scanner_file c f s) = Inr ()"
    by (simp add: scanner_file_def Let_def append_file_returns)
  then show ?thesis by (cases "scanner_file c f s") auto
qed

lemma scanner_loop_effect:
  "fs (snd (scanner_loop c fl s)) = fs s \<and>
   set (files s) \<subseteq> set (files (snd (scanner_loop c fl s))) \<and>
   set (queue s) \<subseteq> set (queue (snd (scanner_loop c fl s))) \<and>
   (\<exists>l. log (snd (scanner_loop c fl s)) = log s @ l)"
proof (induction fl arbitrary: s)
  case Nil
  then show ?case by simp
next
  case (Cons f fl)
  let ?s1 = "snd (scanner_file c f s)"
  note e = scanner_file_effect [of c f s]
  note ih = Cons.IH [of ?s1]
  from e ih obtain l1 l2 where l: "log ?s1 = log s @ l1"
    "log (snd (scanner_loop c fl ?s1)) = log ?s1 @ l2" by blast
  then have "log (snd (scanner_loop c fl ?s1)) = log s @ (l1 @ l2)" by simp
  then have "\<exists>l. log (snd (scanner_loop c fl ?s1)) = log s @ l" ..
  with e ih show ?case unfolding scanner_loop_unfold by auto
qed

lemma scanner_file_named:
  assumes "p = join (source_dir c) name" "fs s p \<noteq> None" "p \<notin> set (files s)"
    "mv c \<noteq> [] \<longrightarrow> fs s (join (mv c) name) = None"
  shows "p \<in> set (queue (snd (scanner_file c name s))) \<or>
         log (snd (scanner_file c name s)) = log s @ [Sleep 5]"
  using assms
  by (auto simp: scanner_file_def append_file_def queue_put_def isfile_def Let_def)

lemma scanner_loop_enqueues:
  assumes "p = join (source_dir c) name" "mv c \<noteq> [] \<longrightarrow> fs s0 (join (mv c) name) = None"
    "fs s0 p \<noteq> None"
  shows "name \<in> set fl \<Longrightarrow> fs s = fs s0 \<Longrightarrow> p \<notin> set (files s) \<Longrightarrow>
         \<exists>l. log (snd (scanner_loop c fl s)) = log s @ l \<and>
             (p \<in> set (queue (snd (scanner_loop c fl s))) \<or> Sleep 5 \<in> set l)"
proof (induction fl arbitrary: s)
  case Nil
  then show ?case by simp
next
  case (Cons f fl)
  let ?s1 = "snd (scanner_file c f s)"
  let ?s' = "snd (scanner_loop c fl ?s1)"
  note e1 = scanner_file_effect [of c f s]
  note e2 = scanner_loop_effect [of c fl ?s1]
  from e1 obtain l1 where l1: "log ?s1 = log s @ l1" by blast
  from e2 obtain l2 where l2: "log ?s' = log ?s1 @ l2" by blast
  have ll: "log ?s' = log s @ (l1 @ l2)" using l1 l2 by simp
  have goal: "\<exists>l. log ?s' = log s @ l \<and> (p \<in> set (queue ?s') \<or> Sleep 5 \<in> set l)"
  proof (cases "p \<in> set (files ?s1)")
    case True
    with e1 Cons.prems(3) have "p \<in> set (queue ?s1)" by blast
    with e2 have "p \<in> set (queue ?s')" by blast
    with ll show ?thesis by blast
  next
    case False
    show ?thesis
    proof (cases "f = name")
      case True
      have "p \<in> set (queue ?s1) \<or> log ?s1 = log s @ [Sleep 5]"
        unfolding True
        using scanner_file_named [OF assms(1) _ Cons.prems(3)] assms(2,3) Cons.prems(2)
        by simp
      then show ?thesis
      proof
        assume "p \<in> set (queue ?s1)"
        with e2 have "p \<in> set (queue ?s')" by blast
        with ll show ?thesis by blast
      next
        assume "log ?s1 = log s @ [Sleep 5]"
        with l2 have "log ?s' = log s @ ([Sleep 5] @ l2)" by simp
        moreover have "Sleep 5 \<in> set ([Sleep 5] @ l2)" by simp
        ultimately show ?thesis by blast
      qed
    next
      case F: False
      with Cons.prems(1) have n: "name \<in> set fl" by simp
      have f1: "fs ?s1 = fs s0" using e1 Cons.prems(2) by simp
      from Cons.IH [OF n f1 False]
      obtain l where l: "log ?s' = log ?s1 @ l" "p \<in> set (queue ?s') \<or> Sleep 5 \<in> set l"
        by blast
      from l(1) l1 have "log ?s' = log s @ (l1 @ l)" by simp
      moreover from l(2) have "p \<in> set (queue ?s') \<or> Sleep 5 \<in> set (l1 @ l)" by auto
      ultimately show ?thesis by blast
    qed
  qed
  then show ?case unfolding scanner_loop_unfold .
qed

lemma scanner_iteration_enqueues:
  assumes "p = join (source_dir c) name" "name \<in> set listing" "fs s p \<noteq> None"
    "p \<notin> set (files s)" "mv c \<noteq> [] \<longrightarrow> fs s (join (mv c) name) = None"
  shows "p \<in> set (queue (snd (scanner_iteration c listing s))) \<or>
         Sleep 5 \<in> set (new_events s (snd (scanner_iteration c listing s)))"
proof -
  let ?s1 = "emit (Sleep 1) s"
  let ?fl = "filter (\<lambda>f. isfile ?s1 (join (source_dir c) f)) listing"
  have si: "snd (scanner_iteration c listing s) = snd (scanner_loop c ?fl ?s1)"
    by (simp add: scanner_iteration_def Let_def)
  have "isfile ?s1 p" using assms(3) by (simp add: isfile_def)
  then have n: "name \<in> set ?fl" using assms(1,2) by simp
  have "\<exists>l. log (snd (scanner_loop c ?fl ?s1)) = log ?s1 @ l \<and>
             (p \<in> set (queue (snd (scanner_loop c ?fl ?s1))) \<or> Sleep 5 \<in> set l)"
    using scanner_loop_enqueues [OF assms(1,5,3) n, where s = "emit (Sleep 1) s"] assms(4)
    by simp
  then obtain l where l: "log (snd (scanner_loop c ?fl ?s1)) = log ?s1 @ l"
    "p \<in> set (queue (snd (scanner_loop c ?fl ?s1))) \<or> Sleep 5 \<in> set l" by blast
  from l(1) have "log (snd (scanner_loop c ?fl ?s1)) = log s @ (Sleep 1 # l)" by simp
  then have "new_events s (snd (scanner_loop c ?fl ?s1)) = Sleep 1 # l" by simp
  with l(2) show ?thesis unfolding si by auto
qed

subsection \<open>The claims\<close>

lemma main_num_threads:
  "main isdir abspath fs0 a = Inr (c, s) \<Longrightarrow> num_threads c = 3 \<and> length (upload_workers s) = 3"
  by (auto simp: main_def AutoUploadModule_init_def start_def upload_workers_def Let_def
           split: if_splits)

text \<open>
  C1. The claim is that \<^verbatim>\<open>--threads N\<close> starts \<open>N\<close> upload workers. The main program
  passes the literal 3 to the constructor and never reads \<^verbatim>\<open>args.threads\<close>: invoked
  with \<^verbatim>\<open>--threads 5\<close> on an existing directory it starts three upload workers.
\<close>

theorem C1_threads_argument_ignored:
  "(case main (\<lambda>_. True) (\<lambda>p. p) Map.empty
           \<lparr>source = ''/in'', ftp_server = ''host'', threads = 5, ftp_user = ''anonymous'',
            ftp_password = [], ftp_port = 22, ftp_dir = ''/'', move = [], remove = False,
            debug = False\<rparr> of
      Inl code \<Rightarrow> False
    | Inr (c, s) \<Rightarrow> num_threads c = 3 \<and> length (upload_workers s) = 3 \<and> length (workers s) = 4)"
  by (simp add: main_def AutoUploadModule_init_def start_def upload_workers_def isabs_def)

text \<open>
  C2. The claim is that the progress indicator of a processed file is removed exactly
  once in every outcome. \<open>process_file_removals\<close> shows one removal after a failed
  upload and after a successful one followed by a move or a delete. After a successful
  upload with neither configured, line 167 returns before line 173 and neither
  \<^verbatim>\<open>_move_file\<close> nor \<^verbatim>\<open>_delete_file\<close> is called: the indicator of the 10-byte
  file below is created and never removed.
\<close>

theorem C2_indicator_not_removed:
  "fst (process_file cfg_plain env_ok ''/in/a'' (state_of fs_example)) = Inr True \<and>
   log (snd (process_file cfg_plain env_ok ''/in/a'' (state_of fs_example))) =
     [AddTask 0 ''a'' 10, FtpConnect ''host'' 21 ''anonymous'' [], FtpCwd ''/'',
      FileOpen ''/in/a'', StartTask 0, FtpStor ''a'', FtpSend 10, Advance 0 1024, FtpQuit,
      Print ''a''] \<and>
   count_list (log (snd (process_file cfg_plain env_ok ''/in/a'' (state_of fs_example))))
     (RemoveTask 0) = 0 \<and>
   tasks (snd (process_file cfg_plain env_ok ''/in/a'' (state_of fs_example))) 0 \<noteq> None"
  by code_simp

text \<open>
  C3. The claim is that the advances reported for a file of size \<open>S\<close> sum to \<open>S\<close>.
  \<^verbatim>\<open>handle\<close> advances by 1024 for every block, whatever its length, so the sum is
  1024 times the number of blocks (\<open>storbinary_advanced\<close>): the 10-byte file below is
  sent in full and reported as 1024 bytes.
\<close>

theorem C3_progress_over_reported:
  "fst (process_file cfg_plain env_ok ''/in/a'' (state_of fs_example)) = Inr True \<and>
   getsize (state_of fs_example) ''/in/a'' = Inr 10 \<and>
   advanced 0 (log (snd (process_file cfg_plain env_ok ''/in/a'' (state_of fs_example)))) = 1024 \<and>
   map_option completed
     (tasks (snd (process_file cfg_plain env_ok ''/in/a'' (state_of fs_example))) 0) = Some 1024 \<and>
   map_option total
     (tasks (snd (process_file cfg_plain env_ok ''/in/a'' (state_of fs_example))) 0) = Some 10"
  by code_simp

lemma ftp_connect_port:
  "log (snd (ftp_connect c ev s)) = log s @ [FtpConnect (server c) 21 (user c) (passwd c)]"
  by (simp add: ftp_connect_def Let_def FTP_PORT_def split: option.splits)

text \<open>
  C7. The claim is that every transfer connects on the port given by
  \<^verbatim>\<open>--ftp_port\<close> and changes into the directory given by \<^verbatim>\<open>--ftp_dir\<close> before
  storing. The directory is used (\<open>FtpCwd\<close> precedes \<open>FtpStor\<close>), the port is not:
  \<^verbatim>\<open>args.ftp_port\<close> is never read, the constructor takes no port and
  \<^verbatim>\<open>ftplib.FTP(host=...)\<close> connects on port 21. Invoked with
  \<^verbatim>\<open>--ftp_port 2121 --ftp_dir /up\<close>, the upload of a file connects on port 21.
\<close>

theorem C7_port_argument_ignored:
  "(case main (\<lambda>d. True) (\<lambda>p. p) fs_example
           \<lparr>source = ''/in'', ftp_server = ''host'', threads = 3, ftp_user = ''anonymous'',
            ftp_password = [], ftp_port = 2121, ftp_dir = ''/up'', move = [], remove = False,
            debug = False\<rparr> of
      Inl code \<Rightarrow> False
    | Inr (c, s) \<Rightarrow>
        log (snd (process_file c env_ok ''/in/a'' s)) =
          [AddTask 0 ''a'' 10, FtpConnect ''host'' 21 ''anonymous'' [], FtpCwd ''/up'',
           FileOpen ''/in/a'', StartTask 0, FtpStor ''a'', FtpSend 10, Advance 0 1024,
           FtpQuit, Print ''a''])"
  by code_simp

text \<open>
  C8. The local file of a processed path is renamed or deleted only after its upload
  has returned \<^verbatim>\<open>True\<close>. If \<^verbatim>\<open>_process_file\<close> does not return \<^verbatim>\<open>True\<close> (the
  file was skipped or the upload failed), the file system is as before and the log has
  no rename and no delete. If the file system changed or a rename or delete was logged,
  then the file existed with a positive size, \<^verbatim>\<open>_upload_file\<close> returned
  \<^verbatim>\<open>True\<close>, up to that moment the file system was untouched and no rename or delete
  was logged, and what follows in the log is the post-action of lines 162 to 166.
\<close>

theorem C8_mutation_only_after_upload:
  assumes "process_file c ev p s = (r, s')"
  shows "(r \<noteq> Inr True \<longrightarrow> fs s' = fs s \<and> \<not> list_ex fs_mutation (new_events s s')) \<and>
         (fs s' \<noteq> fs s \<or> list_ex fs_mutation (new_events s s') \<longrightarrow>
            (\<exists>b su. fs s p = Some b \<and> b \<noteq> [] \<and>
               upload_file c ev p (basename p) (task_index s)
                 (snd (add_task (basename p) (length b) s)) = (Inr True, su) \<and>
               fs su = fs s \<and> \<not> list_ex fs_mutation (new_events s su) \<and>
               log s' = log su @ post_events c p (task_index s)))"
proof (cases rule: process_file_outcome [of c ev p s])
  case (raised e)
  with assms have "r = Inl e" and "s' = s" by simp_all
  then show ?thesis by (simp add: new_events_def)
next
  case (skipped m)
  with assms have "r = Inr False" and "s' = emit (PrintErr m) s" by simp_all
  then show ?thesis by (simp add: new_events_def)
next
  case (run b)
  note b = run(1,2)
  from process_file_cases [OF b assms run(3)]
  obtain l where l: "list_all (upload_event p) l"
    and d: "r = Inr False \<and> fs s' = fs s \<and>
           log s' = log s @ AddTask (task_index s) (basename p) (length b) # l @ [RemoveTask (task_index s)]
         \<or> r = Inr True \<and>
           (\<exists>su. upload_file c ev p (basename p) (task_index s)
                   (snd (add_task (basename p) (length b) s)) = (Inr True, su) \<and>
                 fs su = fs s \<and>
                 log su = log s @ AddTask (task_index s) (basename p) (length b) # l \<and>
                 log s' = log su @ post_events c p (task_index s))"
    by blast
  have nm: "\<not> list_ex fs_mutation l" using l by (rule upload_events_no_mutation)
  from d show ?thesis
  proof
    assume f: "r = Inr False \<and> fs s' = fs s \<and>
           log s' = log s @ AddTask (task_index s) (basename p) (length b) # l @ [RemoveTask (task_index s)]"
    then have "new_events s s' = AddTask (task_index s) (basename p) (length b) # l @ [RemoveTask (task_index s)]"
      by simp
    with f nm show ?thesis by simp
  next
    assume t: "r = Inr True \<and>
           (\<exists>su. upload_file c ev p (basename p) (task_index s)
                   (snd (add_task (basename p) (length b) s)) = (Inr True, su) \<and>
                 fs su = fs s \<and>
                 log su = log s @ AddTask (task_index s) (basename p) (length b) # l \<and>
                 log s' = log su @ post_events c p (task_index s))"
    then obtain su where su: "upload_file c ev p (basename p) (task_index s)
                   (snd (add_task (basename p) (length b) s)) = (Inr True, su)"
      "fs su = fs s" "log su = log s @ AddTask (task_index s) (basename p) (length b) # l"
      "log s' = log su @ post_events c p (task_index s)"
      by blast
    have "new_events s su = AddTask (task_index s) (basename p) (length b) # l"
      using su(3) by simp
    then have "\<not> list_ex fs_mutation (new_events s su)" using nm by simp
    with t b su show ?thesis by auto
  qed
qed

text \<open>
  C8, witness. With \<^verbatim>\<open>--remove\<close>, the 10-byte file is deleted after a successful
  upload, and left alone when the \<^verbatim>\<open>STOR\<close> command fails.
\<close>

theorem C8_witness:
  "fs (snd (process_file (cfg_plain\<lparr>rm := True\<rparr>) env_ok ''/in/a'' (state_of fs_example)))
     \<noteq> fs (state_of fs_example) \<and>
   (\<exists>b su. fs (state_of fs_example) ''/in/a'' = Some b \<and> b \<noteq> [] \<and>
      upload_file (cfg_plain\<lparr>rm := True\<rparr>) env_ok ''/in/a'' (basename ''/in/a'')
        (task_index (state_of fs_example))
        (snd (add_task (basename ''/in/a'') (length b) (state_of fs_example))) = (Inr True, su) \<and>
      fs su = fs (state_of fs_example) \<and>
      \<not> list_ex fs_mutation (new_events (state_of fs_example) su) \<and>
      log (snd (process_file (cfg_plain\<lparr>rm := True\<rparr>) env_ok ''/in/a'' (state_of fs_example))) =
        log su @ post_events (cfg_plain\<lparr>rm := True\<rparr>) ''/in/a'' (task_index (state_of fs_example))) \<and>
   fst (process_file (cfg_plain\<lparr>rm := True\<rparr>) (env_ok\<lparr>stor_res := StorRaises 0 FtpError\<rparr>)
          ''/in/a'' (state_of fs_example)) \<noteq> Inr True \<and>
   fs (snd (process_file (cfg_plain\<lparr>rm := True\<rparr>) (env_ok\<lparr>stor_res := StorRaises 0 FtpError\<rparr>)
          ''/in/a'' (state_of fs_example))) = fs (state_of fs_example)"
proof -
  let ?c = "cfg_plain\<lparr>rm := True\<rparr>"
  let ?s = "state_of fs_example"
  let ?ok = "process_file ?c env_ok ''/in/a'' ?s"
  let ?ko = "process_file ?c (env_ok\<lparr>stor_res := StorRaises 0 FtpError\<rparr>) ''/in/a'' ?s"
  have a: "fs (snd ?ok) ''/in/a'' = None" by code_simp
  have b: "fs ?s ''/in/a'' \<noteq> None" by code_simp
  have ne: "fs (snd ?ok) \<noteq> fs ?s" using a b by metis
  have k: "fst ?ko \<noteq> Inr True" by code_simp
  show ?thesis
    using C8_mutation_only_after_upload [of ?c env_ok "''/in/a''" ?s "fst ?ok" "snd ?ok"]
      C8_mutation_only_after_upload [of ?c "env_ok\<lparr>stor_res := StorRaises 0 FtpError\<rparr>" "''/in/a''" ?s
         "fst ?ko" "snd ?ko"] ne k
    by simp
qed

text \<open>
  C6, counterexample. The claim is that a zero-byte file is never placed on the queue.
  \<^verbatim>\<open>_append_file\<close> tests membership in \<^verbatim>\<open>self.files\<close> and \<^verbatim>\<open>isfile\<close>, not
  the size: one scan of a directory holding the empty file \<open>z\<close> enqueues it.
\<close>

theorem C6_counterexample:
  "getsize (state_of fs_example) ''/in/z'' = Inr 0 \<and>
   ''/in/z'' \<in> set (queue (snd (scanner_iteration cfg_plain [''a'', ''z''] (state_of fs_example))))"
  by code_simp

text \<open>
  C6, amended. The size is tested when the file is processed (lines 152 to 156): a
  file whose size is read as zero is reported on standard error and \<^verbatim>\<open>_process_file\<close> returns
  \<^verbatim>\<open>False\<close>, having created no progress indicator, opened no connection and
  changed nothing else.
\<close>

theorem C6_zero_byte_file_not_transferred:
  "stat_size ev s p = Inr 0 \<Longrightarrow>
   process_file c ev p s = (Inr False, emit (PrintErr (basename p @ '' zero file size'')) s)"
  by (rule process_file_zero)
     (auto simp: stat_size_def getsize_def split: option.splits)

text \<open>C6, witness: the empty file \<open>/in/z\<close>.\<close>

theorem C6_witness:
  "stat_size env_ok (state_of fs_example) ''/in/z'' = Inr 0 \<and>
   process_file cfg_plain env_ok ''/in/z'' (state_of fs_example) =
     (Inr False, emit (PrintErr ''z zero file size'') (state_of fs_example))"
proof -
  have f: "stat_size env_ok (state_of fs_example) ''/in/z'' = Inr 0"
    by (simp add: stat_size_def getsize_def env_ok_def state_of_def fs_example_def)
  have b: "basename ''/in/z'' = ''z''" by (simp add: basename_def)
  show ?thesis
    using C6_zero_byte_file_not_transferred [OF f, of cfg_plain] f b by simp
qed

text \<open>
  C4, counterexample. The claim is that at every point every path in the queue is also
  in the in-flight list, the addition to the list being visible no later than the push.
  \<^verbatim>\<open>_append_file\<close> pushes at line 136 and appends at line 137: after the push and
  before the append the path is in the queue and not in the list.
\<close>

theorem C4_counterexample:
  "''/in/a'' \<in> set (queue (shared (run_actions cfg_plain [ScanCheck ''/in/a'', ScanPut]
                                  (init_sys (state_of fs_example))))) \<and>
   ''/in/a'' \<notin> set (files (shared (run_actions cfg_plain [ScanCheck ''/in/a'', ScanPut]
                                  (init_sys (state_of fs_example)))))"
  by code_simp

text \<open>
  C4, amended. In every state the daemon reaches, under every interleaving of the
  scanner, the workers and other processes, a path in the queue is in the in-flight
  list or is the one path the scanner has pushed at line 136 and not yet appended at
  line 137.
\<close>

theorem C4_queue_in_flight_or_pending:
  assumes "main isdir abspath fs0 a = Inr (c, s0)"
  shows "set (queue (shared (run_actions c acts (init_sys s0))))
           \<subseteq> set (files (shared (run_actions c acts (init_sys s0))))
               \<union> pending (spc (run_actions c acts (init_sys s0)))"
proof -
  from main_initial [OF assms] have "inv (init_sys s0)" by (simp add: inv_init)
  then have "inv (run_actions c acts (init_sys s0))" by (rule inv_run)
  then show ?thesis by (auto simp: inv_def inv_c_def)
qed

text \<open>
  C4, witness: after one complete enqueue and the push of a second path, the second
  path is the pending one.
\<close>

theorem C4_witness:
  "main (\<lambda>d. True) (\<lambda>p. p) fs_example args_example = Inr (cfg_plain, state_of fs_example) \<and>
   set (queue (shared (run_actions cfg_plain [ScanCheck ''/in/a'', ScanPut, ScanAppend, ScanCheck ''/in/z'', ScanPut]
                         (init_sys (state_of fs_example)))))
     \<subseteq> set (files (shared (run_actions cfg_plain [ScanCheck ''/in/a'', ScanPut, ScanAppend, ScanCheck ''/in/z'', ScanPut]
                         (init_sys (state_of fs_example)))))
       \<union> pending (spc (run_actions cfg_plain [ScanCheck ''/in/a'', ScanPut, ScanAppend, ScanCheck ''/in/z'', ScanPut]
                         (init_sys (state_of fs_example)))) \<and>
   queue (shared (run_actions cfg_plain [ScanCheck ''/in/a'', ScanPut, ScanAppend, ScanCheck ''/in/z'', ScanPut]
                         (init_sys (state_of fs_example)))) = [''/in/a'', ''/in/z''] \<and>
   files (shared (run_actions cfg_plain [ScanCheck ''/in/a'', ScanPut, ScanAppend, ScanCheck ''/in/z'', ScanPut]
                         (init_sys (state_of fs_example)))) = [''/in/a''] \<and>
   spc (run_actions cfg_plain [ScanCheck ''/in/a'', ScanPut, ScanAppend, ScanCheck ''/in/z'', ScanPut]
                         (init_sys (state_of fs_example))) = SPushed ''/in/z''"
proof -
  let ?r = "run_actions cfg_plain [ScanCheck ''/in/a'', ScanPut, ScanAppend, ScanCheck ''/in/z'', ScanPut]
                         (init_sys (state_of fs_example))"
  have q: "queue (shared ?r) = [''/in/a'', ''/in/z'']" by code_simp
  have f: "files (shared ?r) = [''/in/a'']" by code_simp
  have s: "spc ?r = SPushed ''/in/z''" by code_simp
  show ?thesis
    using C4_queue_in_flight_or_pending [OF main_example] main_example q f s by simp
qed

text \<open>
  C9. The queue has capacity 15 and never holds more than 15 paths, in every state the
  daemon reaches. When \<^verbatim>\<open>_append_file\<close> is called on a full queue it returns
  normally, leaves the in-flight list and the queue as they are and, where it attempted
  the push (the path is a file not yet in the list), does nothing but sleep 5 seconds.
  A turn of the scanner's loop never raises.
\<close>

theorem C9_bounded_queue_and_backoff:
  "maxsize = 15 \<and>
   (main isdir abspath fs0 a = Inr (c, s0) \<longrightarrow>
      length (queue (shared (run_actions c acts (init_sys s0)))) \<le> 15) \<and>
   (maxsize \<le> length (queue s) \<longrightarrow>
      fst (append_file p s) = Inr () \<and>
      files (snd (append_file p s)) = files s \<and>
      queue (snd (append_file p s)) = queue s \<and>
      (p \<notin> set (files s) \<and> isfile s p \<longrightarrow> snd (append_file p s) = emit (Sleep 5) s)) \<and>
   fst (scanner_iteration c listing s) = Inr ()"
proof -
  have bound: "length (queue (shared (run_actions c acts (init_sys s0)))) \<le> 15"
    if m: "main isdir abspath fs0 a = Inr (c, s0)"
  proof -
    from main_initial [OF m] have "inv (init_sys s0)" by (simp add: inv_init)
    then have "inv (run_actions c acts (init_sys s0))" by (rule inv_run)
    then show ?thesis by (simp add: inv_def inv_c_def maxsize_def)
  qed
  have full: "fst (append_file p s) = Inr () \<and>
      files (snd (append_file p s)) = files s \<and>
      queue (snd (append_file p s)) = queue s \<and>
      (p \<notin> set (files s) \<and> isfile s p \<longrightarrow> snd (append_file p s) = emit (Sleep 5) s)"
    if "maxsize \<le> length (queue s)"
    using that by (simp add: append_file_def queue_put_def)
  show ?thesis
    using bound full by (simp add: maxsize_def scanner_iteration_returns)
qed

text \<open>C9, witness: a queue of 15 paths and a sixteenth file.\<close>

theorem C9_witness:
  "maxsize \<le> length (queue (state_of fs_example\<lparr>queue := replicate 15 ''/in/q''\<rparr>)) \<and>
   ''/in/a'' \<notin> set (files (state_of fs_example\<lparr>queue := replicate 15 ''/in/q''\<rparr>)) \<and>
   isfile (state_of fs_example\<lparr>queue := replicate 15 ''/in/q''\<rparr>) ''/in/a'' \<and>
   fst (append_file ''/in/a'' (state_of fs_example\<lparr>queue := replicate 15 ''/in/q''\<rparr>)) = Inr () \<and>
   snd (append_file ''/in/a'' (state_of fs_example\<lparr>queue := replicate 15 ''/in/q''\<rparr>)) =
     emit (Sleep 5) (state_of fs_example\<lparr>queue := replicate 15 ''/in/q''\<rparr>) \<and>
   main (\<lambda>d. True) (\<lambda>p. p) fs_example args_example = Inr (cfg_plain, state_of fs_example) \<and>
   length (queue (shared (run_actions cfg_plain [ScanCheck ''/in/a'', ScanPut]
                            (init_sys (state_of fs_example))))) \<le> 15"
proof -
  let ?s = "state_of fs_example\<lparr>queue := replicate 15 ''/in/q''\<rparr>"
  have h1: "maxsize \<le> length (queue ?s)" by (simp add: maxsize_def)
  have h2: "''/in/a'' \<notin> set (files ?s)" by (simp add: state_of_def)
  have h3: "isfile ?s ''/in/a''" by (simp add: isfile_def state_of_def fs_example_def)
  note c9 = C9_bounded_queue_and_backoff [of "\<lambda>d. True" "\<lambda>p. p" fs_example args_example cfg_plain
        "state_of fs_example" "[ScanCheck ''/in/a'', ScanPut]" ?s "''/in/a''" "[]"]
  have b: "length (queue (shared (run_actions cfg_plain [ScanCheck ''/in/a'', ScanPut]
                            (init_sys (state_of fs_example))))) \<le> 15"
    using c9 main_example by blast
  have f: "fst (append_file ''/in/a'' ?s) = Inr () \<and>
           snd (append_file ''/in/a'' ?s) = emit (Sleep 5) ?s"
    using c9 h1 h2 h3 by blast
  show ?thesis
    using b f h1 h2 h3 main_example by blast
qed




text \<open>
  C10, counterexample. The claim is that with move or delete configured a skipped
  zero-byte file is released and enqueued again on every later scan, with no backoff.
  With \<^verbatim>\<open>--remove\<close>: after the skip of \<open>z\<close>, a scan that lists fifteen other files
  before \<open>z\<close> fills the queue, does not enqueue \<open>z\<close> and ends with the sleep of line
  142. And a worker that skips \<open>z\<close> between the scanner's push and its append leaves
  \<open>z\<close> in the list, after which a scan enqueues nothing.
\<close>

theorem C10_counterexample:
  "rm (cfg_plain\<lparr>rm := True\<rparr>) \<and>
   log (scan_and_work (cfg_plain\<lparr>rm := True\<rparr>) env_ok ''z'' (state_of fs_many)) =
     [Sleep 1, PrintErr ''z zero file size''] \<and>
   files (scan_and_work (cfg_plain\<lparr>rm := True\<rparr>) env_ok ''z'' (state_of fs_many)) = [] \<and>
   ''z'' \<in> set listing_many \<and>
   ''/in/z'' \<notin> set (queue (snd (scanner_iteration (cfg_plain\<lparr>rm := True\<rparr>) listing_many
        (scan_and_work (cfg_plain\<lparr>rm := True\<rparr>) env_ok ''z'' (state_of fs_many))))) \<and>
   last (log (snd (scanner_iteration (cfg_plain\<lparr>rm := True\<rparr>) listing_many
        (scan_and_work (cfg_plain\<lparr>rm := True\<rparr>) env_ok ''z'' (state_of fs_many))))) = Sleep 5 \<and>
   PrintErr ''z zero file size'' \<in> set (log (shared (run_actions (cfg_plain\<lparr>rm := True\<rparr>)
        [ScanCheck ''/in/z'', ScanPut, WorkerGet 0, WorkerProcess 0 env_ok, WorkerRelease 0, ScanAppend]
        (init_sys (state_of fs_example))))) \<and>
   ''/in/z'' \<in> set (files (shared (run_actions (cfg_plain\<lparr>rm := True\<rparr>)
        [ScanCheck ''/in/z'', ScanPut, WorkerGet 0, WorkerProcess 0 env_ok, WorkerRelease 0, ScanAppend]
        (init_sys (state_of fs_example))))) \<and>
   queue (snd (scanner_iteration (cfg_plain\<lparr>rm := True\<rparr>) [''z'']
        (shared (run_actions (cfg_plain\<lparr>rm := True\<rparr>)
           [ScanCheck ''/in/z'', ScanPut, WorkerGet 0, WorkerProcess 0 env_ok, WorkerRelease 0, ScanAppend]
           (init_sys (state_of fs_example)))))) = []"
  by code_simp

text \<open>
  C10, amended. A file whose size is read as zero when it is processed: (1) the
  enqueue does not look at the size and adds the path to the queue and to the list;
  (2) the worker reports the zero size and applies the release rule, removing the path
  from the list if move or delete is configured and the path is there; (3) with
  neither configured, from any state the daemon reaches in which a worker has taken the
  path, the path never returns to the queue, stays in the list (or is the one the
  scanner is about to append) and is never opened for an upload, whatever the threads
  and other processes do afterwards; (4) a scan whose listing holds the name of a
  file that is not in the list (and, in move mode, not in the move directory) either
  puts it on the queue or finds the queue full and sleeps 5 seconds; (5) with move or
  delete configured there is no count of attempts: from an empty queue the round of
  scan and skip repeats any number of times, each round adding the scanner's sleep of
  one second and the report to the log and nothing else.
\<close>

theorem C10_zero_byte_file_fate:
  "(p \<notin> set (files s) \<and> fs s p = Some [] \<and> length (queue s) < maxsize \<longrightarrow>
      append_file p s = (Inr (), s\<lparr>queue := queue s @ [p], files := files s @ [p]\<rparr>)) \<and>
   (queue s = p # q \<and> p \<noteq> [] \<and> stat_size ev s p = Inr 0 \<longrightarrow>
      snd (worker_iteration c ev s) =
        (emit (PrintErr (basename p @ '' zero file size'')) (s\<lparr>queue := q\<rparr>))
          \<lparr>files := (if rm c \<or> mv c \<noteq> [] then remove1 p (files s) else files s)\<rparr>) \<and>
   (\<not> (rm c \<or> mv c \<noteq> []) \<and> main isdir abspath fs0 a = Inr (c, s0) \<and>
    \<sigma> = run_actions c pre (init_sys s0) \<and> wpc \<sigma> w = WGot p \<and>
    stat_size ev (shared \<sigma>) p = Inr 0 \<longrightarrow>
      (\<forall>acts.
         p \<notin> set (queue (shared (run_actions c (WorkerProcess w ev # WorkerRelease w # acts) \<sigma>))) \<and>
         (p \<in> set (files (shared (run_actions c (WorkerProcess w ev # WorkerRelease w # acts) \<sigma>))) \<or>
          spc (run_actions c (WorkerProcess w ev # WorkerRelease w # acts) \<sigma>) = SPushed p) \<and>
         count_list (log (shared (run_actions c (WorkerProcess w ev # WorkerRelease w # acts) \<sigma>)))
           (FileOpen p) = count_list (log (shared \<sigma>)) (FileOpen p))) \<and>
   (p = join (source_dir c) name \<and> name \<in> set listing \<and> fs s p \<noteq> None \<and>
    p \<notin> set (files s) \<and> (mv c \<noteq> [] \<longrightarrow> fs s (join (mv c) name) = None) \<longrightarrow>
      p \<in> set (queue (snd (scanner_iteration c listing s))) \<or>
      Sleep 5 \<in> set (new_events s (snd (scanner_iteration c listing s)))) \<and>
   ((rm c \<or> mv c \<noteq> []) \<and> p = join (source_dir c) name \<and> p \<noteq> [] \<and>
    stat_size ev s p = Inr 0 \<and> p \<notin> set (files s) \<and> queue s = [] \<and>
    (mv c \<noteq> [] \<longrightarrow> fs s (join (mv c) name) = None) \<longrightarrow>
      (\<forall>n. files ((scan_and_work c ev name ^^ n) s) = files s \<and>
           queue (snd (scanner_iteration c [name] ((scan_and_work c ev name ^^ n) s))) = [p] \<and>
           log ((scan_and_work c ev name ^^ n) s) =
             log s @ concat (replicate n [Sleep 1, PrintErr (basename p @ '' zero file size'')])))"
proof (intro conjI impI)
  assume "p \<notin> set (files s) \<and> fs s p = Some [] \<and> length (queue s) < maxsize"
  then show "append_file p s = (Inr (), s\<lparr>queue := queue s @ [p], files := files s @ [p]\<rparr>)"
    by (intro append_file_enqueues) auto
next
  assume "queue s = p # q \<and> p \<noteq> [] \<and> stat_size ev s p = Inr 0"
  then show "snd (worker_iteration c ev s) =
        (emit (PrintErr (basename p @ '' zero file size'')) (s\<lparr>queue := q\<rparr>))
          \<lparr>files := (if rm c \<or> mv c \<noteq> [] then remove1 p (files s) else files s)\<rparr>"
    by (intro worker_iteration_zero) (auto simp: stat_size_zero)
next
  assume h: "\<not> (rm c \<or> mv c \<noteq> []) \<and> main isdir abspath fs0 a = Inr (c, s0) \<and>
    \<sigma> = run_actions c pre (init_sys s0) \<and> wpc \<sigma> w = WGot p \<and>
    stat_size ev (shared \<sigma>) p = Inr 0"
  then have n: "\<not> (rm c \<or> mv c \<noteq> [])" and m: "main isdir abspath fs0 a = Inr (c, s0)"
    and r: "\<sigma> = run_actions c pre (init_sys s0)" and g: "wpc \<sigma> w = WGot p"
    and z: "fs (shared \<sigma>) p = Some []" "getsize_res ev = None"
    by (auto simp: stat_size_zero)
  from main_initial [OF m] have "inv (init_sys s0)" by (simp add: inv_init)
  then have i: "inv \<sigma>" unfolding r by (rule inv_run)
  let ?\<sigma>2 = "exec c (WorkerRelease w) (exec c (WorkerProcess w ev) \<sigma>)"
  note a = settled_after_skip [OF n i g z]
  show "\<forall>acts.
         p \<notin> set (queue (shared (run_actions c (WorkerProcess w ev # WorkerRelease w # acts) \<sigma>))) \<and>
         (p \<in> set (files (shared (run_actions c (WorkerProcess w ev # WorkerRelease w # acts) \<sigma>))) \<or>
          spc (run_actions c (WorkerProcess w ev # WorkerRelease w # acts) \<sigma>) = SPushed p) \<and>
         count_list (log (shared (run_actions c (WorkerProcess w ev # WorkerRelease w # acts) \<sigma>)))
           (FileOpen p) = count_list (log (shared \<sigma>)) (FileOpen p)"
  proof
    fix acts
    have u: "run_actions c (WorkerProcess w ev # WorkerRelease w # acts) \<sigma> = run_actions c acts ?\<sigma>2"
      by simp
    from a have s2: "settled p ?\<sigma>2" by blast
    note b = settled_run [OF n s2, of acts]
    from b have "settled p (run_actions c acts ?\<sigma>2)" by blast
    moreover from a b have "count_list (log (shared (run_actions c acts ?\<sigma>2))) (FileOpen p) =
        count_list (log (shared \<sigma>)) (FileOpen p)" by simp
    ultimately show "p \<notin> set (queue (shared (run_actions c (WorkerProcess w ev # WorkerRelease w # acts) \<sigma>))) \<and>
         (p \<in> set (files (shared (run_actions c (WorkerProcess w ev # WorkerRelease w # acts) \<sigma>))) \<or>
          spc (run_actions c (WorkerProcess w ev # WorkerRelease w # acts) \<sigma>) = SPushed p) \<and>
         count_list (log (shared (run_actions c (WorkerProcess w ev # WorkerRelease w # acts) \<sigma>)))
           (FileOpen p) = count_list (log (shared \<sigma>)) (FileOpen p)"
      unfolding u by (simp add: settled_def)
  qed
next
  assume "p = join (source_dir c) name \<and> name \<in> set listing \<and> fs s p \<noteq> None \<and>
    p \<notin> set (files s) \<and> (mv c \<noteq> [] \<longrightarrow> fs s (join (mv c) name) = None)"
  then show "p \<in> set (queue (snd (scanner_iteration c listing s))) \<or>
      Sleep 5 \<in> set (new_events s (snd (scanner_iteration c listing s)))"
    by (intro scanner_iteration_enqueues) auto
next
  assume h: "(rm c \<or> mv c \<noteq> []) \<and> p = join (source_dir c) name \<and> p \<noteq> [] \<and>
    stat_size ev s p = Inr 0 \<and> p \<notin> set (files s) \<and> queue s = [] \<and>
    (mv c \<noteq> [] \<longrightarrow> fs s (join (mv c) name) = None)"
  then have y: "rm c \<or> mv c \<noteq> []" and pj: "p = join (source_dir c) name" and pn: "p \<noteq> []"
    and g: "getsize_res ev = None" and z: "fs s p = Some []" and nf: "p \<notin> set (files s)"
    and qe: "queue s = []" and tg: "mv c \<noteq> [] \<longrightarrow> fs s (join (mv c) name) = None"
    by (auto simp: stat_size_zero)
  show "\<forall>n. files ((scan_and_work c ev name ^^ n) s) = files s \<and>
           queue (snd (scanner_iteration c [name] ((scan_and_work c ev name ^^ n) s))) = [p] \<and>
           log ((scan_and_work c ev name ^^ n) s) =
             log s @ concat (replicate n [Sleep 1, PrintErr (basename p @ '' zero file size'')])"
  proof
    fix n
    let ?sn = "(scan_and_work c ev name ^^ n) s"
    note it = scan_and_work_iterate [OF y pj pn g z nf qe tg, where n = n]
    have "snd (scanner_iteration c [name] ?sn) =
            (emit (Sleep 1) ?sn)\<lparr>queue := queue ?sn @ [p], files := files ?sn @ [p]\<rparr>"
      using it pj z nf tg by (intro scanner_iteration_single) (simp_all add: maxsize_def)
    then have "queue (snd (scanner_iteration c [name] ?sn)) = [p]" using it by simp
    with it show "files ?sn = files s \<and>
           queue (snd (scanner_iteration c [name] ?sn)) = [p] \<and>
           log ?sn = log s @ concat (replicate n [Sleep 1, PrintErr (basename p @ '' zero file size'')])"
      by simp
  qed
qed

text \<open>
  C10, witness: the empty file \<open>/in/z\<close>: enqueued, skipped and released with
  \<^verbatim>\<open>--remove\<close>; without post-action rewritten with three bytes and still not
  uploaded; met again by a scan of sixteen files; enqueued again after three rounds.
\<close>

theorem C10_witness:
  "append_file ''/in/z'' (state_of fs_example) =
     (Inr (), state_of fs_example\<lparr>queue := queue (state_of fs_example) @ [''/in/z''],
                                  files := files (state_of fs_example) @ [''/in/z'']\<rparr>) \<and>
   stat_size env_ok (state_of fs_example\<lparr>queue := [''/in/z''], files := [''/in/z'']\<rparr>) ''/in/z'' = Inr 0 \<and>
   files (snd (worker_iteration (cfg_plain\<lparr>rm := True\<rparr>) env_ok
            (state_of fs_example\<lparr>queue := [''/in/z''], files := [''/in/z'']\<rparr>))) = [] \<and>
   wpc (run_actions cfg_plain [ScanCheck ''/in/z'', ScanPut, ScanAppend, WorkerGet 0]
          (init_sys (state_of fs_example))) 0 = WGot ''/in/z'' \<and>
   ''/in/z'' \<in> set (files (shared (run_actions cfg_plain
       (WorkerProcess 0 env_ok # WorkerRelease 0 #
          [EnvWrite ''/in/z'' (Some [1, 2, 3]), ScanCheck ''/in/z'', ScanPut, ScanAppend,
           WorkerGet 1, WorkerProcess 1 env_ok, WorkerRelease 1])
       (run_actions cfg_plain [ScanCheck ''/in/z'', ScanPut, ScanAppend, WorkerGet 0]
          (init_sys (state_of fs_example)))))) \<and>
   count_list (log (shared (run_actions cfg_plain
       (WorkerProcess 0 env_ok # WorkerRelease 0 #
          [EnvWrite ''/in/z'' (Some [1, 2, 3]), ScanCheck ''/in/z'', ScanPut, ScanAppend,
           WorkerGet 1, WorkerProcess 1 env_ok, WorkerRelease 1])
       (run_actions cfg_plain [ScanCheck ''/in/z'', ScanPut, ScanAppend, WorkerGet 0]
          (init_sys (state_of fs_example))))))
     (FileOpen ''/in/z'') = 0 \<and>
   (''/in/z'' \<in> set (queue (snd (scanner_iteration (cfg_plain\<lparr>rm := True\<rparr>) listing_many
        (scan_and_work (cfg_plain\<lparr>rm := True\<rparr>) env_ok ''z'' (state_of fs_many))))) \<or>
    Sleep 5 \<in> set (new_events (scan_and_work (cfg_plain\<lparr>rm := True\<rparr>) env_ok ''z'' (state_of fs_many))
       (snd (scanner_iteration (cfg_plain\<lparr>rm := True\<rparr>) listing_many
          (scan_and_work (cfg_plain\<lparr>rm := True\<rparr>) env_ok ''z'' (state_of fs_many)))))) \<and>
   queue (snd (scanner_iteration (cfg_plain\<lparr>rm := True\<rparr>) [''z'']
            ((scan_and_work (cfg_plain\<lparr>rm := True\<rparr>) env_ok ''z'' ^^ 3) (state_of fs_example)))) =
     [''/in/z''] \<and>
   log ((scan_and_work (cfg_plain\<lparr>rm := True\<rparr>) env_ok ''z'' ^^ 3) (state_of fs_example)) =
     log (state_of fs_example) @
       concat (replicate 3 [Sleep 1, PrintErr (basename ''/in/z'' @ '' zero file size'')])"
proof -
  let ?s = "state_of fs_example"
  let ?sz = "state_of fs_example\<lparr>queue := [''/in/z''], files := [''/in/z'']\<rparr>"
  let ?rm = "cfg_plain\<lparr>rm := True\<rparr>"
  let ?\<sigma> = "run_actions cfg_plain [ScanCheck ''/in/z'', ScanPut, ScanAppend, WorkerGet 0]
          (init_sys (state_of fs_example))"
  let ?acts = "[EnvWrite ''/in/z'' (Some [1, 2, 3]), ScanCheck ''/in/z'', ScanPut, ScanAppend,
           WorkerGet 1, WorkerProcess 1 env_ok, WorkerRelease 1]"
  let ?m = "scan_and_work ?rm env_ok ''z'' (state_of fs_many)"
  note T = C10_zero_byte_file_fate
  have j: "''/in/z'' = join (source_dir cfg_plain) ''z''"
    and j': "''/in/z'' = join (source_dir ?rm) ''z''"
    by (simp_all add: join_def cfg_plain_def isabs_def)
  have nz: "''/in/z'' \<noteq> []" by simp
  have n: "\<not> (rm cfg_plain \<or> mv cfg_plain \<noteq> [])" by (simp add: cfg_plain_def)
  have y: "rm ?rm \<or> mv ?rm \<noteq> []" by simp
  have tg: "mv ?rm \<noteq> [] \<longrightarrow> fs ?s (join (mv ?rm) ''z'') = None"
    and tg': "mv ?rm \<noteq> [] \<longrightarrow> fs ?m (join (mv ?rm) ''z'') = None"
    by (simp_all add: cfg_plain_def)
  \<comment> \<open>the enqueue\<close>
  have a1: "''/in/z'' \<notin> set (files ?s)" "fs ?s ''/in/z'' = Some []" "length (queue ?s) < maxsize"
    "queue ?s = []"
    by (simp_all add: state_of_def fs_example_def maxsize_def)
  have w1: "append_file ''/in/z'' ?s =
     (Inr (), ?s\<lparr>queue := queue ?s @ [''/in/z''], files := files ?s @ [''/in/z'']\<rparr>)"
    using T [where p = "''/in/z''" and s = ?s, THEN conjunct1] a1 by blast
  \<comment> \<open>the skip and the release\<close>
  have a2: "queue ?sz = ''/in/z'' # []" by simp
  have z2: "stat_size env_ok ?sz ''/in/z'' = Inr 0"
    by (simp add: stat_size_def getsize_def env_ok_def state_of_def fs_example_def)
  have "snd (worker_iteration ?rm env_ok ?sz) =
        (emit (PrintErr (basename ''/in/z'' @ '' zero file size'')) (?sz\<lparr>queue := []\<rparr>))
          \<lparr>files := (if rm ?rm \<or> mv ?rm \<noteq> [] then remove1 ''/in/z'' (files ?sz) else files ?sz)\<rparr>"
    using T [where p = "''/in/z''" and s = ?sz and q = "[]" and ev = env_ok and c = ?rm, THEN conjunct2, THEN conjunct1] a2 nz z2
    by blast
  then have w2: "files (snd (worker_iteration ?rm env_ok ?sz)) = []"
    by (simp only:) simp
  \<comment> \<open>retained for ever\<close>
  have g: "wpc ?\<sigma> 0 = WGot ''/in/z''" by code_simp
  have z3: "stat_size env_ok (shared ?\<sigma>) ''/in/z'' = Inr 0" by code_simp
  have l0: "count_list (log (shared ?\<sigma>)) (FileOpen ''/in/z'') = 0" by code_simp
  have "\<forall>acts.
         ''/in/z'' \<notin> set (queue (shared (run_actions cfg_plain
              (WorkerProcess 0 env_ok # WorkerRelease 0 # acts) ?\<sigma>))) \<and>
         (''/in/z'' \<in> set (files (shared (run_actions cfg_plain
              (WorkerProcess 0 env_ok # WorkerRelease 0 # acts) ?\<sigma>))) \<or>
          spc (run_actions cfg_plain (WorkerProcess 0 env_ok # WorkerRelease 0 # acts) ?\<sigma>) =
            SPushed ''/in/z'') \<and>
         count_list (log (shared (run_actions cfg_plain
              (WorkerProcess 0 env_ok # WorkerRelease 0 # acts) ?\<sigma>))) (FileOpen ''/in/z'') =
           count_list (log (shared ?\<sigma>)) (FileOpen ''/in/z'')"
    using T [where c = cfg_plain and isdir = "\<lambda>d. True" and abspath = "\<lambda>p. p"
        and ?fs0.0 = fs_example and a = args_example and ?s0.0 = ?s and \<sigma> = ?\<sigma>
        and pre = "[ScanCheck ''/in/z'', ScanPut, ScanAppend, WorkerGet 0]"
        and w = 0 and p = "''/in/z''" and ev = env_ok, THEN conjunct2, THEN conjunct2, THEN conjunct1]
      n main_example g z3
    by blast
  then have w3: "(''/in/z'' \<in> set (files (shared (run_actions cfg_plain
              (WorkerProcess 0 env_ok # WorkerRelease 0 # ?acts) ?\<sigma>))) \<or>
          spc (run_actions cfg_plain (WorkerProcess 0 env_ok # WorkerRelease 0 # ?acts) ?\<sigma>) =
            SPushed ''/in/z'')"
    and "count_list (log (shared (run_actions cfg_plain
              (WorkerProcess 0 env_ok # WorkerRelease 0 # ?acts) ?\<sigma>))) (FileOpen ''/in/z'') =
           count_list (log (shared ?\<sigma>)) (FileOpen ''/in/z'')"
    by blast+
  from this(2) l0
  have w3c: "count_list (log (shared (run_actions cfg_plain
              (WorkerProcess 0 env_ok # WorkerRelease 0 # ?acts) ?\<sigma>))) (FileOpen ''/in/z'') = 0"
    by (rule trans)
  have sp: "spc (run_actions cfg_plain (WorkerProcess 0 env_ok # WorkerRelease 0 # ?acts) ?\<sigma>) = SIdle"
    by code_simp
  have ns: "spc (run_actions cfg_plain (WorkerProcess 0 env_ok # WorkerRelease 0 # ?acts) ?\<sigma>) \<noteq>
      SPushed ''/in/z''"
    unfolding sp by (rule scanner_pc.distinct)
  have w3f: "''/in/z'' \<in> set (files (shared (run_actions cfg_plain
              (WorkerProcess 0 env_ok # WorkerRelease 0 # ?acts) ?\<sigma>)))"
    using w3 ns by blast
  \<comment> \<open>the next scan with a long listing\<close>
  have a4: "''z'' \<in> set listing_many" by (simp add: listing_many_def)
  have b4: "fs ?m ''/in/z'' \<noteq> None" by code_simp
  have c4: "''/in/z'' \<notin> set (files ?m)" by code_simp
  have w4: "''/in/z'' \<in> set (queue (snd (scanner_iteration ?rm listing_many ?m))) \<or>
    Sleep 5 \<in> set (new_events ?m (snd (scanner_iteration ?rm listing_many ?m)))"
    using T [where p = "''/in/z''" and c = ?rm and name = "''z''" and listing = listing_many
        and s = ?m, THEN conjunct2, THEN conjunct2, THEN conjunct2, THEN conjunct1] j' a4 b4 c4 tg'
    by blast
  \<comment> \<open>round after round\<close>
  have z5: "stat_size env_ok ?s ''/in/z'' = Inr 0"
    by (simp add: stat_size_def getsize_def env_ok_def state_of_def fs_example_def)
  have "\<forall>n. files ((scan_and_work ?rm env_ok ''z'' ^^ n) ?s) = files ?s \<and>
           queue (snd (scanner_iteration ?rm [''z''] ((scan_and_work ?rm env_ok ''z'' ^^ n) ?s))) =
             [''/in/z''] \<and>
           log ((scan_and_work ?rm env_ok ''z'' ^^ n) ?s) =
             log ?s @ concat (replicate n [Sleep 1, PrintErr (basename ''/in/z'' @ '' zero file size'')])"
    using T [where c = ?rm and p = "''/in/z''" and name = "''z''" and ev = env_ok and s = ?s, THEN conjunct2, THEN conjunct2, THEN conjunct2, THEN conjunct2]
      y j' nz z5 a1(1,4) tg
    by blast
  then have w5: "queue (snd (scanner_iteration ?rm [''z''] ((scan_and_work ?rm env_ok ''z'' ^^ 3) ?s))) =
             [''/in/z'']"
    "log ((scan_and_work ?rm env_ok ''z'' ^^ 3) ?s) =
             log ?s @ concat (replicate 3 [Sleep 1, PrintErr (basename ''/in/z'' @ '' zero file size'')])"
    by blast+
  show ?thesis
    using w1 z2 w2 g w3f w3c w4 w5 by blast
qed

end
